theory Spec2Isabelle
  imports Main "HOL-Library.Multiset"
begin

section \<open>The S3 storage driver (registry/storage/driver/s3-aws/s3.go)\<close>

subsection \<open>Go standard library functions used by the driver\<close>

text \<open>
  Go strings are byte sequences; they are modelled as \<^typ>\<open>string\<close>.
  \<open>strings.TrimLeft(s, cutset)\<close> removes every leading byte that occurs in \<open>cutset\<close>,
  \<open>strings.TrimRight\<close> every trailing one; \<open>strings.HasPrefix\<close> and
  \<open>strings.HasSuffix\<close> compare a prefix or suffix.
\<close>

definition TrimLeft :: "string \<Rightarrow> string \<Rightarrow> string" where
  "TrimLeft s cutset = dropWhile (\<lambda>c. c \<in> set cutset) s"

definition TrimRight :: "string \<Rightarrow> string \<Rightarrow> string" where
  "TrimRight s cutset = rev (dropWhile (\<lambda>c. c \<in> set cutset) (rev s))"

definition HasPrefix :: "string \<Rightarrow> string \<Rightarrow> bool" where
  "HasPrefix s pre = (length pre \<le> length s \<and> take (length pre) s = pre)"

definition HasSuffix :: "string \<Rightarrow> string \<Rightarrow> bool" where
  "HasSuffix s suf = (length suf \<le> length s \<and> drop (length s - length suf) s = suf)"

subsection \<open>The driver and its configuration\<close>

definition minChunkSize :: int where
  "minChunkSize = 5 * 2 ^ 20"

definition maxChunkSize :: int where
  "maxChunkSize = 5 * 2 ^ 30"

definition listMax :: int where
  "listMax = 1000"

record driver =
  Bucket :: string
  ChunkSize :: int
  Encrypt :: bool
  KeyID :: string
  MultipartCopyChunkSize :: int
  MultipartCopyMaxConcurrency :: int
  MultipartCopyThresholdSize :: int
  RootDirectory :: string
  StorageClass :: string
  ObjectACL :: string

subsection \<open>Path mapper\<close>

definition s3Path :: "driver \<Rightarrow> string \<Rightarrow> string" where
  "s3Path d path = TrimLeft (TrimRight (RootDirectory d) ''/'' @ path) ''/''"

subsection \<open>Errors and the backend\<close>

text \<open>
  Go's \<open>error\<close> values. \<open>Errorf\<close> carries the message of \<open>fmt.Errorf\<close> and
  \<open>errors.New\<close>, \<open>AwsError\<close> the code and message of an \<open>awserr.Error\<close>,
  \<open>OtherError\<close> any other error of the backend or of a callback, \<open>Panic\<close> a run-time
  panic. A nil error is \<open>None\<close>.
\<close>

datatype error =
    Errorf string
  | AwsError string string
  | OtherError string
  | PathNotFoundError string
  | QuotaExceededError
  | ErrSkipDir
  | Panic string

fun parseError :: "string \<Rightarrow> error option \<Rightarrow> error option" where
  "parseError path (Some (AwsError code msg)) =
     (if code = ''NoSuchKey'' then Some (PathNotFoundError path)
      else if code = ''QuotaExceeded'' then Some QuotaExceededError
      else Some (AwsError code msg))"
| "parseError path err = err"

type_synonym bytes = string

text \<open>
  The requests the driver sends, with the fields of the input structs that identify the
  object and the data (bucket, key, upload id, part number, range, body). The metadata
  fields (content type, ACL, encryption, storage class) are constants of the configuration
  and are left out.
\<close>

datatype request =
    HeadObjectInput string string
  | GetObjectInput string string "string option"
  | ListObjectsInput string string "string option" "int option" "string option"
  | CreateMultipartUploadInput string string
  | UploadPartInput string string int string bytes
  | UploadPartCopyInput string string string int string "string option"
  | CompleteMultipartUploadInput string string string "(string \<times> int) list"
  | AbortMultipartUploadInput string string string
  | CopyObjectInput string string string
  | ListObjectsV2Input string string int

text \<open>
  Argument order: \<open>HeadObjectInput bucket key\<close>, \<open>GetObjectInput bucket key range\<close>,
  \<open>ListObjectsInput bucket prefix delimiter maxKeys marker\<close>,
  \<open>CreateMultipartUploadInput bucket key\<close>,
  \<open>UploadPartInput bucket key partNumber uploadId body\<close>,
  \<open>UploadPartCopyInput bucket copySource key partNumber uploadId copySourceRange\<close>,
  \<open>CompleteMultipartUploadInput bucket key uploadId parts\<close> with each part as
  \<open>(etag, partNumber)\<close>, \<open>AbortMultipartUploadInput bucket key uploadId\<close>,
  \<open>CopyObjectInput bucket key copySource\<close>, \<open>ListObjectsV2Input bucket prefix maxKeys\<close>.
\<close>

record Object =
  Key :: string
  Size_obj :: int
  LastModified :: int

record ListObjectsOutput =
  Contents :: "Object list"
  CommonPrefixes :: "string list"
  IsTruncated :: bool
  NextMarker :: "string option"

text \<open>
  The S3 client: what the backend answers to each request of one call of the driver.
  A body is the bytes that \<open>ioutil.ReadAll\<close> reads from it and the error, if any, that
  ends the reading. \<open>HeadObject\<close> answers the content length and the modification time,
  each of which may be absent. \<open>ListObjectsV2Pages\<close> answers the pages that the paginator of the
  SDK hands to its callback, each page as its contents, and the error, if any, that ends
  the paging after them.
\<close>

record S3 =
  HeadObject :: "request \<Rightarrow> error + (int option \<times> int option)"
  GetObject :: "request \<Rightarrow> error + (bytes \<times> error option)"
  ListObjects :: "request \<Rightarrow> error + ListObjectsOutput"
  CreateMultipartUpload :: "request \<Rightarrow> error + string"
  UploadPart :: "request \<Rightarrow> error + string"
  UploadPartCopy :: "request \<Rightarrow> error + string"
  CompleteMultipartUpload :: "request \<Rightarrow> error option"
  AbortMultipartUpload :: "request \<Rightarrow> error option"
  CopyObject :: "request \<Rightarrow> error option"
  ListObjectsV2Pages :: "request \<Rightarrow> Object list list \<times> error option"

subsection \<open>The resumable writer\<close>

record Part =
  ETag :: string
  PartNumber :: int
  Size :: int

record writer =
  driver :: driver
  key :: string
  uploadID :: string
  parts :: "Part list"
  size_w :: int
  readyPart :: bytes
  pendingPart :: bytes
  closed :: bool
  committed :: bool
  cancelled :: bool

definition newWriter :: "driver \<Rightarrow> string \<Rightarrow> string \<Rightarrow> Part list \<Rightarrow> writer" where
  "newWriter d k u ps =
     \<lparr>driver = d, key = k, uploadID = u, parts = ps, size_w = sum_list (map Size ps),
      readyPart = [], pendingPart = [], closed = False, committed = False,
      cancelled = False\<rparr>"

text \<open>\<open>sort.Sort(completedParts)\<close>: the completed parts in ascending part number.\<close>

definition completedParts :: "Part list \<Rightarrow> (string \<times> int) list" where
  "completedParts ps = sort_key snd (map (\<lambda>p. (ETag p, PartNumber p)) ps)"

text \<open>The requests of the writer, as its methods fill them in.\<close>

definition upload_request :: "writer \<Rightarrow> request" where
  "upload_request w =
     UploadPartInput (Bucket (driver w)) (key w) (int (length (parts w)) + 1) (uploadID w)
       (readyPart w)"

definition complete_request :: "writer \<Rightarrow> request" where
  "complete_request w =
     CompleteMultipartUploadInput (Bucket (driver w)) (key w) (uploadID w)
       (completedParts (parts w))"

definition abort_request :: "writer \<Rightarrow> request" where
  "abort_request w = AbortMultipartUploadInput (Bucket (driver w)) (key w) (uploadID w)"

definition create_request :: "writer \<Rightarrow> request" where
  "create_request w = CreateMultipartUploadInput (Bucket (driver w)) (key w)"

definition get_request :: "writer \<Rightarrow> request" where
  "get_request w = GetObjectInput (Bucket (driver w)) (key w) None"

definition copy_request :: "writer \<Rightarrow> string \<Rightarrow> request" where
  "copy_request w newID =
     UploadPartCopyInput (Bucket (driver w)) (Bucket (driver w) @ ''/'' @ key w) (key w) 1
       newID None"

text \<open>
  Every operation of the writer returns the writer as it leaves it, its Go results and the
  requests it sent, in order.
\<close>

definition flushPart :: "S3 \<Rightarrow> writer \<Rightarrow> writer \<times> error option \<times> request list" where
  "flushPart s w =
     (if length (readyPart w) = 0 \<and> length (pendingPart w) = 0 then (w, None, [])
      else
        (let w1 = (if int (length (pendingPart w)) < ChunkSize (driver w)
                   then w\<lparr>readyPart := readyPart w @ pendingPart w, pendingPart := []\<rparr>
                   else w);
             partNumber = int (length (parts w1)) + 1
         in (case UploadPart s (upload_request w1) of
               Inl err \<Rightarrow> (w1, parseError (key w1) (Some err), [upload_request w1])
             | Inr etag \<Rightarrow>
                 (w1\<lparr>parts := parts w1 @ [\<lparr>ETag = etag, PartNumber = partNumber,
                                             Size = int (length (readyPart w1))\<rparr>],
                     readyPart := pendingPart w1, pendingPart := []\<rparr>,
                  None, [upload_request w1]))))"

text \<open>The guard at the head of \<open>Write\<close> and of \<open>Commit\<close>, of \<open>Close\<close>, of \<open>Cancel\<close>.\<close>

definition Write_guard :: "writer \<Rightarrow> error option" where
  "Write_guard w =
     (if closed w then Some (Errorf ''already closed'')
      else if committed w then Some (Errorf ''already committed'')
      else if cancelled w then Some (Errorf ''already cancelled'')
      else None)"

definition Close_guard :: "writer \<Rightarrow> error option" where
  "Close_guard w = (if closed w then Some (Errorf ''already closed'') else None)"

definition Cancel_guard :: "writer \<Rightarrow> error option" where
  "Cancel_guard w =
     (if closed w then Some (Errorf ''already closed'')
      else if committed w then Some (Errorf ''already committed'')
      else None)"

text \<open>
  The test that opens the small-tail recovery in \<open>Write\<close>:
  there is a part, and the size of the last one is below \<open>minChunkSize\<close>.
\<close>

definition short_tail :: "writer \<Rightarrow> bool" where
  "short_tail w = (length (parts w) > 0 \<and> Size (last (parts w)) < minChunkSize)"

text \<open>
  The recovery block of \<open>Write\<close>. \<open>Inl\<close> is an early \<open>return 0, err\<close>, \<open>Inr\<close> falls
  through to the buffering loop.
\<close>

definition recover ::
  "S3 \<Rightarrow> writer \<Rightarrow> (writer \<times> error option \<times> request list) + (writer \<times> request list)" where
  "recover s w =
     (if short_tail w then
        (case CompleteMultipartUpload s (complete_request w) of
           Some err \<Rightarrow>
             Inl (w, parseError (key w) (Some err), [complete_request w, abort_request w])
         | None \<Rightarrow>
            (case CreateMultipartUpload s (create_request w) of
               Inl err \<Rightarrow>
                 Inl (w, parseError (key w) (Some err), [complete_request w, create_request w])
             | Inr newID \<Rightarrow>
                (let w1 = w\<lparr>uploadID := newID\<rparr>;
                     sent = [complete_request w, create_request w]
                 in if size_w w1 < minChunkSize then
                      (case GetObject s (get_request w1) of
                         Inl err \<Rightarrow>
                           Inl (w1, parseError (key w1) (Some err), sent @ [get_request w1])
                       | Inr resp \<Rightarrow>
                          (let w2 = w1\<lparr>parts := [], readyPart := fst resp\<rparr>
                           in (case snd resp of
                                 Some err \<Rightarrow> Inl (w2, Some err, sent @ [get_request w1])
                               | None \<Rightarrow> Inr (w2, sent @ [get_request w1]))))
                    else
                      (case UploadPartCopy s (copy_request w1 newID) of
                         Inl err \<Rightarrow>
                           Inl (w1, parseError (key w1) (Some err),
                                sent @ [copy_request w1 newID])
                       | Inr etag \<Rightarrow>
                           Inr (w1\<lparr>parts := [\<lparr>ETag = etag, PartNumber = 1,
                                                 Size = size_w w1\<rparr>]\<rparr>,
                                sent @ [copy_request w1 newID])))))
      else Inr (w, []))"

text \<open>
  One round of the loop \<open>for len(p) > 0\<close> of \<open>Write\<close>, on the writer, the rest of \<open>p\<close>,
  the count \<open>n\<close> and the requests sent so far: it returns from \<open>Write\<close> or goes round again.
\<close>

datatype ('r, 's) round = Return 'r | Again 's

definition fill_ready :: "writer \<times> bytes \<times> int \<Rightarrow> writer \<times> bytes \<times> int" where
  "fill_ready st =
     (case st of (w, p, n) \<Rightarrow>
        let neededBytes = ChunkSize (driver w) - int (length (readyPart w)) in
        if neededBytes > 0 then
          if int (length p) \<ge> neededBytes then
            (w\<lparr>readyPart := readyPart w @ take (nat neededBytes) p\<rparr>,
             drop (nat neededBytes) p, n + neededBytes)
          else (w\<lparr>readyPart := readyPart w @ p\<rparr>, [], n + int (length p))
        else (w, p, n))"

definition Write_round ::
  "S3 \<Rightarrow> writer \<times> bytes \<times> int \<times> request list
     \<Rightarrow> (writer \<times> int \<times> error option \<times> request list,
         writer \<times> bytes \<times> int \<times> request list) round" where
  "Write_round s st =
     (case st of (w0, p0, n0, tr) \<Rightarrow>
        if length p0 > 0 then
          (case fill_ready (w0, p0, n0) of (w, p, n) \<Rightarrow>
             let neededBytes = ChunkSize (driver w) - int (length (pendingPart w)) in
             if neededBytes > 0 then
               if int (length p) \<ge> neededBytes then
                 (case flushPart s (w\<lparr>pendingPart := pendingPart w @ take (nat neededBytes) p\<rparr>) of
                    (w', err, reqs) \<Rightarrow>
                      (case err of
                         Some e \<Rightarrow>
                           Return (w'\<lparr>size_w := size_w w' + (n + neededBytes)\<rparr>,
                                   n + neededBytes, Some e, tr @ reqs)
                       | None \<Rightarrow>
                           Again (w', drop (nat neededBytes) p, n + neededBytes, tr @ reqs)))
               else Again (w\<lparr>pendingPart := pendingPart w @ p\<rparr>, [], n + int (length p), tr)
             else Again (w, p, n, tr))
        else Return (w0\<lparr>size_w := size_w w0 + n0\<rparr>, n0, None, tr))"

text \<open>
  The loop itself. It does not return when both buffers are full on entry and \<open>p\<close> is not
  empty (neither buffer takes a byte, \<open>p\<close> never shrinks); not returning is \<open>None\<close>.
\<close>

partial_function (option) Write_loop ::
  "S3 \<Rightarrow> writer \<times> bytes \<times> int \<times> request list
     \<Rightarrow> (writer \<times> int \<times> error option \<times> request list) option" where
  "Write_loop s st =
     (case Write_round s st of
        Return r \<Rightarrow> Some r
      | Again st' \<Rightarrow> Write_loop s st')"

definition Write ::
  "S3 \<Rightarrow> writer \<Rightarrow> bytes \<Rightarrow> (writer \<times> int \<times> error option \<times> request list) option" where
  "Write s w p =
     (case Write_guard w of
        Some err \<Rightarrow> Some (w, 0, Some err, [])
      | None \<Rightarrow>
          (case recover s w of
             Inl (w', err, reqs) \<Rightarrow> Some (w', 0, err, reqs)
           | Inr (w', reqs) \<Rightarrow> Write_loop s (w', p, 0, reqs)))"

definition Size_w :: "writer \<Rightarrow> int" where
  "Size_w w = size_w w"

definition Close :: "S3 \<Rightarrow> writer \<Rightarrow> writer \<times> error option \<times> request list" where
  "Close s w =
     (case Close_guard w of
        Some err \<Rightarrow> (w, Some err, [])
      | None \<Rightarrow> flushPart s (w\<lparr>closed := True\<rparr>))"

definition Cancel :: "S3 \<Rightarrow> writer \<Rightarrow> writer \<times> error option \<times> request list" where
  "Cancel s w =
     (case Cancel_guard w of
        Some err \<Rightarrow> (w, Some err, [])
      | None \<Rightarrow>
          (let w1 = w\<lparr>cancelled := True\<rparr>
           in (w1, parseError (key w1) (AbortMultipartUpload s (abort_request w1)),
               [abort_request w1])))"

definition Commit :: "S3 \<Rightarrow> writer \<Rightarrow> writer \<times> error option \<times> request list" where
  "Commit s w =
     (case Write_guard w of
        Some err \<Rightarrow> (w, Some err, [])
      | None \<Rightarrow>
          (case flushPart s w of
             (w1, flushErr, reqs) \<Rightarrow>
               (case flushErr of
                  Some err \<Rightarrow> (w1, Some err, reqs)
                | None \<Rightarrow>
                   (let w2 = w1\<lparr>committed := True\<rparr>
                    in (case CompleteMultipartUpload s (complete_request w2) of
                          Some err \<Rightarrow>
                            (w2, parseError (key w2) (Some err),
                             reqs @ [complete_request w2, abort_request w2])
                        | None \<Rightarrow> (w2, None, reqs @ [complete_request w2]))))))"

text \<open>
  A sequence of calls on one writer, each with what the backend answers during it. A
  \<open>Write\<close> that does not return leaves no writer behind (\<open>None\<close>).
\<close>

datatype call = WriteCall bytes | CloseCall | CancelCall | CommitCall

fun exec :: "writer \<Rightarrow> call \<times> S3 \<Rightarrow> (writer \<times> error option) option" where
  "exec w (WriteCall p, s) =
     (case Write s w p of None \<Rightarrow> None | Some r \<Rightarrow> Some (fst r, fst (snd (snd r))))"
| "exec w (CloseCall, s) = Some (fst (Close s w), fst (snd (Close s w)))"
| "exec w (CancelCall, s) = Some (fst (Cancel s w), fst (snd (Cancel s w)))"
| "exec w (CommitCall, s) = Some (fst (Commit s w), fst (snd (Commit s w)))"

fun run :: "writer \<Rightarrow> (call \<times> S3) list \<Rightarrow> writer option" where
  "run w [] = Some w"
| "run w (c # cs) = (case exec w c of None \<Rightarrow> None | Some r \<Rightarrow> run (fst r) cs)"

definition flags :: "writer \<Rightarrow> bool \<times> bool \<times> bool" where
  "flags w = (closed w, committed w, cancelled w)"

subsection \<open>More of the Go standard library\<close>

text \<open>
  \<open>strings.Replace(s, old, new, 1)\<close> replaces the first occurrence of \<open>old\<close> in \<open>s\<close>; an
  empty \<open>old\<close> matches at the beginning.
\<close>

fun Replace1 :: "string \<Rightarrow> string \<Rightarrow> string \<Rightarrow> string" where
  "Replace1 [] old new = (if old = [] then new else [])"
| "Replace1 (c # cs) old new =
     (if HasPrefix (c # cs) old then new @ drop (length old) (c # cs)
      else c # Replace1 cs old new)"

text \<open>
  \<open>strconv.FormatInt(i, 10)\<close>, which is also what \<open>%d\<close> prints: the decimal digits, after a
  minus sign for a negative number.
\<close>

definition digit_char :: "nat \<Rightarrow> char" where
  "digit_char n = ''0123456789'' ! n"

fun digits10 :: "nat \<Rightarrow> string" where
  "digits10 n = (if n < 10 then [digit_char n] else digits10 (n div 10) @ [digit_char (n mod 10)])"

declare digits10.simps [simp del]

definition FormatInt :: "int \<Rightarrow> string" where
  "FormatInt i = (if i < 0 then ''-'' @ digits10 (nat (- i)) else digits10 (nat i))"

text \<open>The number that a string of decimal digits denotes.\<close>

definition digit_value :: "char \<Rightarrow> nat" where
  "digit_value c = of_char c - 48"

definition is_digit :: "char \<Rightarrow> bool" where
  "is_digit c = (48 \<le> (of_char c :: nat) \<and> (of_char c :: nat) \<le> 57)"

definition decimal_value :: "string \<Rightarrow> nat" where
  "decimal_value s = foldl (\<lambda>a c. 10 * a + digit_value c) 0 s"

text \<open>
  \<open>filepath.Clean\<close> and \<open>filepath.Dir\<close> on a system whose separator is the slash. \<open>Clean\<close>
  drops empty and \<open>.\<close> elements, lets \<open>..\<close> remove the element before it (at the start of a
  rooted path \<open>..\<close> is dropped, at the start of another path it is kept), and gives \<open>.\<close> for
  an empty result. \<open>Dir\<close> cleans all but the last element of the path.
\<close>

fun split_slash :: "string \<Rightarrow> string list" where
  "split_slash [] = [[]]"
| "split_slash (c # cs) =
     (if c = CHR ''/'' then [] # split_slash cs
      else (case split_slash cs of [] \<Rightarrow> [[c]] | x # xs \<Rightarrow> (c # x) # xs))"

fun join_slash :: "string list \<Rightarrow> string" where
  "join_slash [] = []"
| "join_slash [x] = x"
| "join_slash (x # y # ys) = x @ ''/'' @ join_slash (y # ys)"

definition clean_elem :: "bool \<Rightarrow> string list \<Rightarrow> string \<Rightarrow> string list" where
  "clean_elem rooted out e =
     (if e = [] \<or> e = ''.'' then out
      else if e = ''..'' then
        (if out \<noteq> [] \<and> last out \<noteq> ''..'' then butlast out
         else if \<not> rooted then out @ [''..'']
         else out)
      else out @ [e])"

definition Clean :: "string \<Rightarrow> string" where
  "Clean path =
     (if path = [] then ''.''
      else
        (let rooted = (hd path = CHR ''/'');
             out = foldl (clean_elem rooted) [] (split_slash path);
             res = (if rooted then ''/'' else []) @ join_slash out
         in if res = [] then ''.'' else res))"

definition Dir :: "string \<Rightarrow> string" where
  "Dir path = Clean (rev (dropWhile (\<lambda>c. c \<noteq> CHR ''/'') (rev path)))"

text \<open>Go's integers of 64 bits: the value an arithmetic result wraps to, and the quotient.\<close>

definition int64 :: "int \<Rightarrow> int" where
  "int64 x = (x + 2 ^ 63) mod 2 ^ 64 - 2 ^ 63"

definition quo :: "int \<Rightarrow> int \<Rightarrow> int" where
  "quo a b = int64 (sgn a * sgn b * (\<bar>a\<bar> div \<bar>b\<bar>))"

subsection \<open>Reader\<close>

text \<open>
  Go's pair of results is a pair here: the stream (a body) or nil, and the error or nil.
\<close>

definition Reader ::
  "S3 \<Rightarrow> driver \<Rightarrow> string \<Rightarrow> int
     \<Rightarrow> ((bytes \<times> error option) option \<times> error option) \<times> request list" where
  "Reader s d path offset =
     (let req = GetObjectInput (Bucket d) (s3Path d path)
                  (Some (''bytes='' @ FormatInt offset @ ''-''))
      in (case GetObject s req of
            Inl err \<Rightarrow>
              (case err of
                 AwsError code msg \<Rightarrow>
                   if code = ''InvalidRange'' then ((Some ([], None), None), [req])
                   else ((None, parseError path (Some err)), [req])
               | _ \<Rightarrow> ((None, parseError path (Some err)), [req]))
          | Inr body \<Rightarrow> ((Some body, None), [req])))"

subsection \<open>Stat\<close>

record FileInfoFields =
  Path :: string
  Size_fi :: int
  ModTime :: "int option"
  IsDir :: bool

definition Stat ::
  "S3 \<Rightarrow> driver \<Rightarrow> string \<Rightarrow> (FileInfoFields option \<times> error option) \<times> request list" where
  "Stat s d path =
     (let fi = \<lparr>Path = path, Size_fi = 0, ModTime = None, IsDir = False\<rparr>;
          head = HeadObjectInput (Bucket d) (s3Path d path);
          list = ListObjectsInput (Bucket d) (s3Path d path) None (Some 1) None;
          viaList =
            (case ListObjects s list of
               Inl err \<Rightarrow> ((None, Some err), [head, list])
             | Inr resp \<Rightarrow>
                 if length (Contents resp) = 1 then
                   (if Key (hd (Contents resp)) \<noteq> s3Path d path
                    then ((Some (fi\<lparr>IsDir := True\<rparr>), None), [head, list])
                    else ((Some (fi\<lparr>IsDir := False, Size_fi := Size_obj (hd (Contents resp)),
                                    ModTime := Some (LastModified (hd (Contents resp)))\<rparr>),
                           None), [head, list]))
                 else if length (CommonPrefixes resp) = 1
                   then ((Some (fi\<lparr>IsDir := True\<rparr>), None), [head, list])
                 else ((None, Some (PathNotFoundError path)), [head, list]))
      in (case HeadObject s head of
            Inl err \<Rightarrow> viaList
          | Inr headResp \<Rightarrow>
              (case fst headResp of
                 None \<Rightarrow> viaList
               | Some contentLength \<Rightarrow>
                   ((Some (fi\<lparr>Size_fi := contentLength, ModTime := snd headResp\<rparr>), None),
                    [head]))))"

subsection \<open>List\<close>

text \<open>
  The state of the paging loop of \<open>List\<close>: the page in hand, the files and directories
  collected, the requests sent and the pages already taken in. One round takes the page in
  and asks for the next one when the page is truncated. Slicing the last byte off an empty
  common prefix panics.
\<close>

type_synonym list_state =
  "ListObjectsOutput \<times> string list \<times> string list \<times> request list \<times> ListObjectsOutput list"

type_synonym list_result =
  "(string list \<times> string list) option \<times> error option \<times> request list
     \<times> ListObjectsOutput list"

definition List_round ::
  "S3 \<Rightarrow> driver \<Rightarrow> string \<Rightarrow> string \<Rightarrow> list_state \<Rightarrow> (list_result, list_state) round" where
  "List_round s d path prefix st =
     (case st of (resp, files, directories, reqs, pages) \<Rightarrow>
        (let files' = files @ map (\<lambda>obj. Replace1 (Key obj) (s3Path d []) prefix)
                                (Contents resp);
             directories' = directories
                @ map (\<lambda>commonPrefix. Replace1 (butlast commonPrefix) (s3Path d []) prefix)
                    (CommonPrefixes resp);
             next = ListObjectsInput (Bucket d) (s3Path d path) (Some ''/'') (Some listMax)
                      (NextMarker resp)
         in if [] \<in> set (CommonPrefixes resp)
            then Return (None, Some (Panic ''slice bounds out of range''), reqs, pages @ [resp])
            else if IsTruncated resp then
              (case ListObjects s next of
                 Inl err \<Rightarrow> Return (None, Some err, reqs @ [next], pages @ [resp])
               | Inr resp' \<Rightarrow>
                   Again (resp', files', directories', reqs @ [next], pages @ [resp]))
            else Return (Some (files', directories'), None, reqs, pages @ [resp])))"

partial_function (option) List_loop ::
  "S3 \<Rightarrow> driver \<Rightarrow> string \<Rightarrow> string \<Rightarrow> list_state \<Rightarrow> list_result option" where
  "List_loop s d path prefix st =
     (case List_round s d path prefix st of
        Return r \<Rightarrow> Some r
      | Again st' \<Rightarrow> List_loop s d path prefix st')"

text \<open>
  \<open>List\<close> returns the paths or nil, the error or nil, the requests it sent and the pages it
  took in. Indexing the last byte of an empty path panics.
\<close>

definition List_path :: "string \<Rightarrow> string" where
  "List_path opath =
     (if opath \<noteq> ''/'' \<and> last opath \<noteq> CHR ''/'' then opath @ ''/'' else opath)"

definition root_prefix :: "driver \<Rightarrow> string" where
  "root_prefix d = (if s3Path d [] = [] then ''/'' else [])"

definition List_s3 ::
  "S3 \<Rightarrow> driver \<Rightarrow> string
     \<Rightarrow> ((string list option \<times> error option) \<times> request list \<times> ListObjectsOutput list) option"
  where
  "List_s3 s d opath =
     (if opath = [] then Some ((None, Some (Panic ''index out of range'')), [], [])
      else
        (let path = List_path opath;
             first = ListObjectsInput (Bucket d) (s3Path d path) (Some ''/'') (Some listMax) None
         in (case ListObjects s first of
               Inl err \<Rightarrow> Some ((None, parseError opath (Some err)), [first], [])
             | Inr resp \<Rightarrow>
                 (case List_loop s d path (root_prefix d) (resp, [], [], [first], []) of
                    None \<Rightarrow> None
                  | Some r \<Rightarrow>
                      (case fst r of
                         None \<Rightarrow> Some ((None, fst (snd r)), snd (snd r))
                       | Some found \<Rightarrow>
                           if opath \<noteq> ''/'' \<and> length (fst found) = 0 \<and> length (snd found) = 0
                           then Some ((None, Some (PathNotFoundError opath)), snd (snd r))
                           else Some ((Some (fst found @ snd found), None), snd (snd r)))))))"

subsection \<open>Walk\<close>

partial_function (option) directoryDiff_loop ::
  "string \<Rightarrow> string \<Rightarrow> string list \<Rightarrow> string list option" where
  "directoryDiff_loop prev parent paths =
     (if Dir parent = ''/'' \<or> Dir parent = prev \<or> HasPrefix prev (Dir parent) then Some paths
      else directoryDiff_loop prev (Dir parent) (paths @ [Dir parent]))"

definition directoryDiff :: "string \<Rightarrow> string \<Rightarrow> string list option" where
  "directoryDiff prev current =
     (if prev = [] \<or> current = [] then Some []
      else map_option rev (directoryDiff_loop prev current []))"

text \<open>
  The directory diff as the specification words it: the walk upward stops when the parent
  is the root, is \<open>prev\<close>, or when \<open>prev\<close> starts with the parent followed by a slash.
\<close>

partial_function (option) directoryDiff_spec_loop ::
  "string \<Rightarrow> string \<Rightarrow> string list \<Rightarrow> string list option" where
  "directoryDiff_spec_loop prev parent paths =
     (if Dir parent = ''/'' \<or> Dir parent = prev \<or> HasPrefix prev (Dir parent @ ''/'')
      then Some paths
      else directoryDiff_spec_loop prev (Dir parent) (paths @ [Dir parent]))"

definition directoryDiff_spec :: "string \<Rightarrow> string \<Rightarrow> string list option" where
  "directoryDiff_spec prev current =
     (if prev = [] \<or> current = [] then Some []
      else map_option rev (directoryDiff_spec_loop prev current []))"

text \<open>
  The first loop of the page callback of \<open>doWalk\<close>: the walk infos of a page, and the
  directory seen last. It has no result when a directory diff does not return.
\<close>

fun walkInfos ::
  "driver \<Rightarrow> string \<Rightarrow> string \<Rightarrow> Object list \<Rightarrow> (FileInfoFields list \<times> string) option" where
  "walkInfos d prefix prevDir [] = Some ([], prevDir)"
| "walkInfos d prefix prevDir (file # files) =
     (let filePath = Replace1 (Key file) (s3Path d []) prefix
      in (case directoryDiff prevDir filePath of
            None \<Rightarrow> None
          | Some dirs \<Rightarrow>
              (case walkInfos d prefix (if dirs = [] then prevDir else last dirs) files of
                 None \<Rightarrow> None
               | Some rest \<Rightarrow>
                   Some (map (\<lambda>dir. \<lparr>Path = dir, Size_fi = 0, ModTime = None, IsDir = True\<rparr>) dirs
                         @ [\<lparr>Path = filePath, Size_fi = Size_obj file,
                              ModTime = Some (LastModified file), IsDir = False\<rparr>]
                         @ fst rest,
                         snd rest))))"

text \<open>
  The callback \<open>f\<close> of a walk is given the infos it was called with before, so that it may
  answer each call differently. The second loop of the page callback runs on the skip
  directory, the count of calls and the infos delivered so far; it returns whether the
  paging goes on, and the error that ends the walk.
\<close>

type_synonym WalkFn = "FileInfoFields list \<Rightarrow> FileInfoFields \<Rightarrow> error option"

type_synonym walk_state = "string \<times> int \<times> FileInfoFields list"

fun deliver ::
  "WalkFn \<Rightarrow> FileInfoFields list \<Rightarrow> walk_state \<Rightarrow> bool \<times> error option \<times> walk_state" where
  "deliver f [] st = (True, None, st)"
| "deliver f (walkInfo # rest) (prevSkipDir, objectCount, delivered) =
     (if prevSkipDir \<noteq> [] \<and> HasPrefix (Path walkInfo) prevSkipDir
      then deliver f rest (prevSkipDir, objectCount, delivered)
      else
        (case f delivered walkInfo of
           None \<Rightarrow> deliver f rest (prevSkipDir, objectCount + 1, delivered @ [walkInfo])
         | Some err \<Rightarrow>
             if err = ErrSkipDir then
               (if IsDir walkInfo
                then deliver f rest (Path walkInfo, objectCount + 1, delivered @ [walkInfo])
                else (False, None, (prevSkipDir, objectCount + 1, delivered @ [walkInfo])))
             else (False, Some err, (prevSkipDir, objectCount + 1, delivered @ [walkInfo]))))"

text \<open>
  The pages that \<open>ListObjectsV2Pages\<close> hands to the callback, one after the other until the
  callback returns false: the result is the error that ended the walk, whether the paging
  came to its end, and the state.
\<close>

fun walk_pages ::
  "driver \<Rightarrow> string \<Rightarrow> WalkFn \<Rightarrow> Object list list \<Rightarrow> string \<Rightarrow> walk_state
     \<Rightarrow> (bool \<times> error option \<times> walk_state) option" where
  "walk_pages d prefix f [] prevDir st = Some (True, None, st)"
| "walk_pages d prefix f (page # pages) prevDir st =
     (case walkInfos d prefix prevDir page of
        None \<Rightarrow> None
      | Some infos \<Rightarrow>
          (case deliver f (fst infos) st of
             (continue, retError, st') \<Rightarrow>
               if continue then walk_pages d prefix f pages (snd infos) st'
               else Some (False, retError, st')))"

definition walk_request :: "driver \<Rightarrow> string \<Rightarrow> request" where
  "walk_request d path = ListObjectsV2Input (Bucket d) path listMax"

definition doWalk ::
  "S3 \<Rightarrow> driver \<Rightarrow> string \<Rightarrow> string \<Rightarrow> WalkFn
     \<Rightarrow> (error option \<times> int \<times> FileInfoFields list) option" where
  "doWalk s d path prefix f =
     (let listed = ListObjectsV2Pages s (walk_request d path)
      in (case walk_pages d prefix f (fst listed) (prefix @ path) ([], 0, []) of
            None \<Rightarrow> None
          | Some (finished, retError, st) \<Rightarrow>
              (case retError of
                 Some err \<Rightarrow> Some (Some err, snd st)
               | None \<Rightarrow> Some (if finished then snd listed else None, snd st))))"

definition Walk_path :: "string \<Rightarrow> string" where
  "Walk_path from = (if \<not> HasSuffix from ''/'' then from @ ''/'' else from)"

definition Walk ::
  "S3 \<Rightarrow> driver \<Rightarrow> string \<Rightarrow> WalkFn \<Rightarrow> (error option \<times> FileInfoFields list) option" where
  "Walk s d from f =
     (case doWalk s d (s3Path d (Walk_path from)) (root_prefix d) f of
        None \<Rightarrow> None
      | Some (err, objectCount, delivered) \<Rightarrow>
          (case err of
             Some e \<Rightarrow> Some (Some e, delivered)
           | None \<Rightarrow>
               if objectCount = 0 then Some (Some (PathNotFoundError from), delivered)
               else Some (None, delivered)))"

subsection \<open>Copy\<close>

definition copy_numParts :: "driver \<Rightarrow> int \<Rightarrow> int" where
  "copy_numParts d fileSize =
     quo (int64 (int64 (fileSize + MultipartCopyChunkSize d) - 1)) (MultipartCopyChunkSize d)"

definition copy_firstByte :: "driver \<Rightarrow> int \<Rightarrow> int" where
  "copy_firstByte d i = int64 (i * MultipartCopyChunkSize d)"

definition copy_lastByte :: "driver \<Rightarrow> int \<Rightarrow> int \<Rightarrow> int" where
  "copy_lastByte d fileSize i =
     (let lastByte = int64 (int64 (copy_firstByte d i + MultipartCopyChunkSize d) - 1)
      in if lastByte \<ge> fileSize then int64 (fileSize - 1) else lastByte)"

definition copy_part_request ::
  "driver \<Rightarrow> string \<Rightarrow> string \<Rightarrow> string \<Rightarrow> int \<Rightarrow> int \<Rightarrow> request" where
  "copy_part_request d sourcePath destPath uploadId fileSize i =
     UploadPartCopyInput (Bucket d) (Bucket d @ ''/'' @ s3Path d sourcePath) (s3Path d destPath)
       (int64 (i + 1)) uploadId
       (Some (''bytes='' @ FormatInt (copy_firstByte d i) @ ''-''
                @ FormatInt (copy_lastByte d fileSize i)))"

text \<open>
  The error that the draining loop of \<open>copy\<close> returns: the first one in the order in which
  the copies of the parts report.
\<close>

fun first_error :: "(error + 'a) list \<Rightarrow> error option" where
  "first_error [] = None"
| "first_error (Inl err # rs) = Some err"
| "first_error (Inr x # rs) = first_error rs"

text \<open>
  \<open>copy\<close>. The copies of the parts run concurrently; \<open>order\<close> is the order in which they
  report, a permutation of the indices of the parts, and the requests are listed by index.
  A chunk size of zero and a negative number of parts panic.
\<close>

definition copy ::
  "S3 \<Rightarrow> driver \<Rightarrow> nat list \<Rightarrow> string \<Rightarrow> string \<Rightarrow> error option \<times> request list" where
  "copy s d order sourcePath destPath =
     (case Stat s d sourcePath of
        ((statInfo, statErr), statReqs) \<Rightarrow>
          (case statInfo of
             None \<Rightarrow> (parseError sourcePath statErr, statReqs)
           | Some fileInfo \<Rightarrow>
               (let single = CopyObjectInput (Bucket d) (s3Path d destPath)
                               (Bucket d @ ''/'' @ s3Path d sourcePath);
                    create = CreateMultipartUploadInput (Bucket d) (s3Path d destPath)
                in if Size_fi fileInfo \<le> MultipartCopyThresholdSize d then
                     (parseError sourcePath (CopyObject s single), statReqs @ [single])
                   else
                     (case CreateMultipartUpload s create of
                        Inl err \<Rightarrow> (Some err, statReqs @ [create])
                      | Inr uploadId \<Rightarrow>
                          if MultipartCopyChunkSize d = 0
                          then (Some (Panic ''integer divide by zero''), statReqs @ [create])
                          else if copy_numParts d (Size_fi fileInfo) < 0
                          then (Some (Panic ''makeslice: len out of range''),
                                statReqs @ [create])
                          else
                            (let indices = [0..<nat (copy_numParts d (Size_fi fileInfo))];
                                 reqs = map (\<lambda>i. copy_part_request d sourcePath destPath
                                              uploadId (Size_fi fileInfo) (int i)) indices;
                                 resp = (\<lambda>i. UploadPartCopy s
                                           (copy_part_request d sourcePath destPath uploadId
                                              (Size_fi fileInfo) (int i)));
                                 completedParts =
                                   List.map_filter
                                     (\<lambda>i. case resp i of
                                             Inl err \<Rightarrow> None
                                           | Inr etag \<Rightarrow> Some (etag, int64 (int i + 1)))
                                     indices;
                                 complete = CompleteMultipartUploadInput (Bucket d)
                                              (s3Path d destPath) uploadId completedParts
                             in (case first_error (map resp order) of
                                   Some err \<Rightarrow> (Some err, statReqs @ [create] @ reqs)
                                 | None \<Rightarrow>
                                     (CompleteMultipartUpload s complete,
                                      statReqs @ [create] @ reqs @ [complete])))))))"

subsection \<open>The quantities of the writer's invariants\<close>

definition parts_size :: "writer \<Rightarrow> int" where
  "parts_size w = sum_list (map Size (parts w))"

definition buffered :: "writer \<Rightarrow> int" where
  "buffered w = int (length (readyPart w)) + int (length (pendingPart w))"

definition size_ok :: "writer \<Rightarrow> bool" where
  "size_ok w = (size_w w = parts_size w + buffered w)"

definition buffers_ok :: "writer \<Rightarrow> bool" where
  "buffers_ok w = (int (length (readyPart w)) \<le> ChunkSize (driver w)
                   \<and> int (length (pendingPart w)) \<le> ChunkSize (driver w))"

definition same_writer :: "writer \<Rightarrow> writer \<Rightarrow> bool" where
  "same_writer w w' = (driver w' = driver w \<and> key w' = key w \<and> closed w' = closed w
                        \<and> committed w' = committed w \<and> cancelled w' = cancelled w)"

text \<open>
  The hypothesis under which a small-tail recovery keeps the writer's accounting: it starts
  with both buffers empty, the configured chunk size is not below \<open>minChunkSize\<close>, and the
  body the backend hands back for the completed object has \<open>size\<close> bytes.
\<close>

definition recovery_exact :: "S3 \<Rightarrow> writer \<Rightarrow> bool" where
  "recovery_exact s w =
     (if short_tail w then
        readyPart w = [] \<and> pendingPart w = [] \<and> minChunkSize \<le> ChunkSize (driver w)
        \<and> (if size_w w < minChunkSize then
             (case GetObject s (get_request w) of
                Inl err \<Rightarrow> True
              | Inr resp \<Rightarrow> int (length (fst resp)) = size_w w)
           else True)
      else True)"

subsection \<open>Concrete drivers, backends and writers\<close>

definition example_driver :: driver where
  "example_driver =
     \<lparr>Bucket = ''bucket'', ChunkSize = 10 * 2 ^ 20, Encrypt = False, KeyID = '''',
      MultipartCopyChunkSize = 32 * 2 ^ 20, MultipartCopyMaxConcurrency = 100,
      MultipartCopyThresholdSize = 32 * 2 ^ 20, RootDirectory = '''',
      StorageClass = ''STANDARD'', ObjectACL = ''private''\<rparr>"

definition s3_ok :: S3 where
  "s3_ok =
     \<lparr>HeadObject = (\<lambda>r. Inr (Some 3, Some 0)),
      GetObject = (\<lambda>r. Inr (''abc'', None)),
      ListObjects = (\<lambda>r. Inr \<lparr>Contents = [], CommonPrefixes = [], IsTruncated = False,
                                NextMarker = None\<rparr>),
      CreateMultipartUpload = (\<lambda>r. Inr ''upload-2''),
      UploadPart = (\<lambda>r. Inr ''etag''),
      UploadPartCopy = (\<lambda>r. Inr ''etag-copy''),
      CompleteMultipartUpload = (\<lambda>r. None),
      AbortMultipartUpload = (\<lambda>r. None),
      CopyObject = (\<lambda>r. None),
      ListObjectsV2Pages = (\<lambda>r. ([], None))\<rparr>"

definition s3_upload_fails :: S3 where
  "s3_upload_fails = s3_ok\<lparr>UploadPart := (\<lambda>r. Inl (AwsError ''InternalError'' ''''))\<rparr>"

definition fresh_writer :: writer where
  "fresh_writer = newWriter example_driver ''k'' ''upload-1'' []"

text \<open>Ten and twenty MiB of data, and the writer after the bytes \<open>abc\<close>.\<close>

definition ten_MiB :: bytes where
  "ten_MiB = replicate 10485760 (CHR ''a'')"

definition twenty_MiB :: bytes where
  "twenty_MiB = replicate 20971520 (CHR ''a'')"

definition writer_abc :: writer where
  "writer_abc = fresh_writer\<lparr>readyPart := ''abc'', size_w := 3\<rparr>"

text \<open>The writer of an upload resumed in append mode whose only part has three bytes.\<close>

definition resumed_writer :: writer where
  "resumed_writer =
     newWriter example_driver ''k'' ''upload-1'' [\<lparr>ETag = ''etag'', PartNumber = 1, Size = 3\<rparr>]"

definition eleven_MiB :: bytes where
  "eleven_MiB = replicate 11534336 (CHR ''a'')"

definition one_MiB :: bytes where
  "one_MiB = replicate 1048576 (CHR ''a'')"

text \<open>The writer after eleven MiB have been written to a new one.\<close>

definition writer_eleven :: writer where
  "writer_eleven =
     fresh_writer\<lparr>readyPart := ten_MiB, pendingPart := one_MiB, size_w := 11534336\<rparr>"

text \<open>The writer after \<open>abc\<close> was written and the writer closed.\<close>

definition closed_writer :: writer where
  "closed_writer =
     fresh_writer\<lparr>parts := [\<lparr>ETag = ''etag'', PartNumber = 1, Size = 3\<rparr>], size_w := 3,
                   closed := True\<rparr>"

text \<open>No flag of the first writer is cleared in the second.\<close>

definition flags_le :: "writer \<Rightarrow> writer \<Rightarrow> bool" where
  "flags_le w w' = ((closed w \<longrightarrow> closed w') \<and> (committed w \<longrightarrow> committed w')
                     \<and> (cancelled w \<longrightarrow> cancelled w'))"

text \<open>
  Writing \<open>abc\<close>, committing and then closing, and the writers after the commit and after
  the close.
\<close>

definition write_commit_close :: "(call \<times> S3) list" where
  "write_commit_close = [(WriteCall ''abc'', s3_ok), (CommitCall, s3_ok), (CloseCall, s3_ok)]"

definition committed_writer :: writer where
  "committed_writer =
     fresh_writer\<lparr>parts := [\<lparr>ETag = ''etag'', PartNumber = 1, Size = 3\<rparr>], size_w := 3,
                   committed := True\<rparr>"

definition committed_closed_writer :: writer where
  "committed_closed_writer = committed_writer\<lparr>closed := True\<rparr>"

definition cancelled_writer :: writer where
  "cancelled_writer = fresh_writer\<lparr>cancelled := True\<rparr>"

text \<open>A bucket with the two keys \<open>a-b/x\<close> and \<open>a/b/file\<close>, and a callback that accepts all.\<close>

definition s3_two_keys :: S3 where
  "s3_two_keys = s3_ok\<lparr>ListObjectsV2Pages :=
     (\<lambda>r. ([[\<lparr>Key = ''a-b/x'', Size_obj = 1, LastModified = 0\<rparr>,
              \<lparr>Key = ''a/b/file'', Size_obj = 1, LastModified = 0\<rparr>]], None))\<rparr>"

definition accept_all :: WalkFn where
  "accept_all = (\<lambda>delivered walkInfo. None)"

text \<open>A backend that answers every GET with \<open>InvalidRange\<close>.\<close>

definition s3_invalid_range :: S3 where
  "s3_invalid_range =
     s3_ok\<lparr>GetObject := (\<lambda>r. Inl (AwsError ''InvalidRange'' ''The requested range is not satisfiable''))\<rparr>"

text \<open>
  The copy of part \<open>i\<close> (counted from zero) as the specification words it: bytes
  \<open>i \<sqdot> chunk\<close> to \<open>min ((i + 1) \<sqdot> chunk - 1, size - 1)\<close>, posted as part number \<open>i + 1\<close>.
\<close>

definition copy_part_spec ::
  "driver \<Rightarrow> string \<Rightarrow> string \<Rightarrow> string \<Rightarrow> int \<Rightarrow> nat \<Rightarrow> request" where
  "copy_part_spec d sourcePath destPath uploadId fileSize i =
     UploadPartCopyInput (Bucket d) (Bucket d @ ''/'' @ s3Path d sourcePath) (s3Path d destPath)
       (int i + 1) uploadId
       (Some (''bytes='' @ FormatInt (int i * MultipartCopyChunkSize d) @ ''-''
                @ FormatInt (min ((int i + 1) * MultipartCopyChunkSize d - 1) (fileSize - 1))))"

text \<open>A backend on which the source object has 100 MiB.\<close>

definition s3_100_MiB :: S3 where
  "s3_100_MiB = s3_ok\<lparr>HeadObject := (\<lambda>r. Inr (Some 104857600, Some 0))\<rparr>"

text \<open>No page holds a content key or a common prefix.\<close>

definition pages_empty :: "ListObjectsOutput list \<Rightarrow> bool" where
  "pages_empty pages = (\<forall>pg \<in> set pages. Contents pg = [] \<and> CommonPrefixes pg = [])"

section \<open>Properties\<close>

subsection \<open>Path mapper\<close>

lemma TrimRight_slash_decomp:
  "\<exists>k. s = TrimRight s ''/'' @ replicate k (CHR ''/'')"
proof -
  have "\<exists>k. xs = replicate k (CHR ''/'') @ dropWhile (\<lambda>c. c \<in> set ''/'') xs" for xs :: string
  proof (induction xs)
    case Nil
    show ?case by simp
  next
    case (Cons x xs)
    then obtain k where k: "xs = replicate k (CHR ''/'') @ dropWhile (\<lambda>c. c \<in> set ''/'') xs"
      by blast
    show ?case
    proof (cases "x = CHR ''/''")
      case True
      have "x # xs = replicate (Suc k) (CHR ''/'') @ dropWhile (\<lambda>c. c \<in> set ''/'') (x # xs)"
        using True k by simp
      then show ?thesis by blast
    next
      case False
      then have "x # xs = replicate 0 (CHR ''/'') @ dropWhile (\<lambda>c. c \<in> set ''/'') (x # xs)"
        by simp
      then show ?thesis by blast
    qed
  qed
  then obtain k where "rev s = replicate k (CHR ''/'') @ dropWhile (\<lambda>c. c \<in> set ''/'') (rev s)"
    by blast
  then have "rev (rev s) = rev (replicate k (CHR ''/'') @ dropWhile (\<lambda>c. c \<in> set ''/'') (rev s))"
    by simp
  then have "s = TrimRight s ''/'' @ replicate k (CHR ''/'')"
    by (simp add: TrimRight_def)
  then show ?thesis by blast
qed

lemma TrimRight_slash_last:
  "TrimRight s ''/'' \<noteq> [] \<Longrightarrow> last (TrimRight s ''/'') \<noteq> CHR ''/''"
proof -
  assume ne: "TrimRight s ''/'' \<noteq> []"
  let ?t = "dropWhile (\<lambda>c. c \<in> set ''/'') (rev s)"
  from ne have t: "?t \<noteq> []" by (simp add: TrimRight_def)
  then have "\<not> (hd ?t \<in> set ''/'')" by (rule hd_dropWhile)
  moreover have "last (rev ?t) = hd ?t" using t by (simp add: last_rev)
  ultimately show ?thesis by (simp add: TrimRight_def)
qed

text \<open>
  C7. The object key of a logical path is the configured root with its trailing slashes
  removed, followed by the path, with the leading slashes of the result stripped:
  the root splits as \<open>root_trimmed @ ///\<close> where \<open>root_trimmed\<close> does not end in a slash,
  and the key is \<open>root_trimmed @ path\<close> without its leading slashes. With an empty root the
  key of \<open>/a/b\<close> is \<open>a/b\<close>, with the root \<open>/r\<close> it is \<open>r/a/b\<close>.
\<close>

theorem s3Path_to_key:
  "(\<exists>root_trimmed k.
      RootDirectory d = root_trimmed @ replicate k (CHR ''/'')
      \<and> \<not> (root_trimmed \<noteq> [] \<and> last root_trimmed = CHR ''/'')
      \<and> s3Path d path = dropWhile (\<lambda>c. c = CHR ''/'') (root_trimmed @ path))
   \<and> s3Path (d\<lparr>RootDirectory := ''''\<rparr>) ''/a/b'' = ''a/b''
   \<and> s3Path (d\<lparr>RootDirectory := ''/r''\<rparr>) ''/a/b'' = ''r/a/b''"
proof (intro conjI)
  obtain k where k: "RootDirectory d = TrimRight (RootDirectory d) ''/'' @ replicate k (CHR ''/'')"
    using TrimRight_slash_decomp by blast
  have l: "\<not> (TrimRight (RootDirectory d) ''/'' \<noteq> []
              \<and> last (TrimRight (RootDirectory d) ''/'') = CHR ''/'')"
    using TrimRight_slash_last by blast
  have e: "s3Path d path
             = dropWhile (\<lambda>c. c = CHR ''/'') (TrimRight (RootDirectory d) ''/'' @ path)"
    by (simp add: s3Path_def TrimLeft_def)
  from k l e show "\<exists>root_trimmed k.
      RootDirectory d = root_trimmed @ replicate k (CHR ''/'')
      \<and> \<not> (root_trimmed \<noteq> [] \<and> last root_trimmed = CHR ''/'')
      \<and> s3Path d path = dropWhile (\<lambda>c. c = CHR ''/'') (root_trimmed @ path)"
    by blast
next
  show "s3Path (d\<lparr>RootDirectory := ''''\<rparr>) ''/a/b'' = ''a/b''"
    by (simp add: s3Path_def TrimLeft_def TrimRight_def)
next
  show "s3Path (d\<lparr>RootDirectory := ''/r''\<rparr>) ''/a/b'' = ''r/a/b''"
    by (simp add: s3Path_def TrimLeft_def TrimRight_def)
qed

subsection \<open>The writer: one flush, one round of the loop, the loop\<close>


lemma flushPart_flags:
  "flushPart s w = (w', e, tr) \<Longrightarrow> closed w' = closed w \<and> committed w' = committed w \<and> cancelled w' = cancelled w"
  by (auto simp: flushPart_def Let_def split: if_splits sum.splits)

lemma flushPart_fixed:
  "flushPart s w = (w', e, tr) \<Longrightarrow> driver w' = driver w \<and> key w' = key w \<and> uploadID w' = uploadID w \<and> size_w w' = size_w w"
  by (auto simp: flushPart_def Let_def split: if_splits sum.splits)

lemma flushPart_total:
  "flushPart s w = (w', e, tr) \<Longrightarrow> parts_size w' + buffered w' = parts_size w + buffered w"
  by (auto simp: flushPart_def Let_def parts_size_def buffered_def split: if_splits sum.splits)

lemma flushPart_size_ok:
  "size_ok w \<Longrightarrow> flushPart s w = (w', e, tr) \<Longrightarrow> size_ok w'"
  using flushPart_total[of s w w' e tr] flushPart_fixed[of s w w' e tr]
  by (simp add: size_ok_def)

lemma parseError_Some [simp]: "parseError k (Some e) \<noteq> None"
  by (cases e) auto

lemma flushPart_buffers_ok:
  "buffers_ok w \<Longrightarrow> flushPart s w = (w', None, tr) \<Longrightarrow> buffers_ok w'"
  by (auto simp: flushPart_def Let_def buffers_ok_def split: if_splits sum.splits)


lemma fill_ready_props:
  assumes "fill_ready (w, p, n) = (w', p', n')"
  shows "parts_size w' + buffered w' - n' = parts_size w + buffered w - n"
    and "n' + int (length p') = n + int (length p)"
    and "n \<le> n'"
    and "driver w' = driver w" "size_w w' = size_w w" "key w' = key w" "uploadID w' = uploadID w"
    and "closed w' = closed w" "committed w' = committed w" "cancelled w' = cancelled w"
    and "pendingPart w' = pendingPart w" "parts w' = parts w"
  using assms
  by (auto simp: fill_ready_def Let_def parts_size_def buffered_def split: if_splits)

lemma fill_ready_bound:
  assumes "fill_ready (w, p, n) = (w', p', n')" "int (length (readyPart w)) \<le> ChunkSize (driver w)"
  shows "int (length (readyPart w')) \<le> ChunkSize (driver w')"
  using assms
  by (auto simp: fill_ready_def Let_def split: if_splits)

lemma Write_loop_rule:
  assumes run: "Write_loop s st = Some r"
    and init: "I st"
    and again: "\<And>st st'. I st \<Longrightarrow> Write_round s st = Again st' \<Longrightarrow> I st'"
    and return: "\<And>st r. I st \<Longrightarrow> Write_round s st = Return r \<Longrightarrow> Q r"
  shows "Q r"
proof -
  have gen: "s' = s \<longrightarrow> I st' \<longrightarrow> Q r'" if h: "Write_loop s' st' = Some r'" for s' st' r'
  proof (rule Write_loop.raw_induct[where P = "\<lambda>s' st' r'. s' = s \<longrightarrow> I st' \<longrightarrow> Q r'", OF _ h])
    fix loop s' st r
    assume IH: "\<And>a b y. loop a b = Some y \<Longrightarrow> a = s \<longrightarrow> I b \<longrightarrow> Q y"
      and step: "(case Write_round s' st of Return r \<Rightarrow> Some r | Again st' \<Rightarrow> loop s' st') = Some r"
    show "s' = s \<longrightarrow> I st \<longrightarrow> Q r"
    proof (intro impI)
      assume eq: "s' = s" and inv: "I st"
      show "Q r"
      proof (cases "Write_round s st")
        case (Return r')
        with step eq have "r' = r" by simp
        with Return inv show ?thesis using return by blast
      next
        case (Again st')
        with step eq have "loop s st' = Some r" by simp
        moreover have "I st'" using again inv Again by blast
        ultimately show ?thesis using IH by blast
      qed
    qed
  qed
  with run init show ?thesis by blast
qed

lemma Write_round_cases:
  assumes "fill_ready (w0, p0, n0) = (w, p, n)"
  shows "Write_round s (w0, p0, n0, tr) =
    (if length p0 > 0 then
       if ChunkSize (driver w) - int (length (pendingPart w)) > 0 then
         if int (length p) \<ge> ChunkSize (driver w) - int (length (pendingPart w)) then
           (case flushPart s (w\<lparr>pendingPart := pendingPart w @ take (nat (ChunkSize (driver w) - int (length (pendingPart w)))) p\<rparr>) of
              (w', err, reqs) \<Rightarrow>
                (case err of
                   Some e \<Rightarrow> Return (w'\<lparr>size_w := size_w w' + (n + (ChunkSize (driver w) - int (length (pendingPart w))))\<rparr>,
                                     n + (ChunkSize (driver w) - int (length (pendingPart w))), Some e, tr @ reqs)
                 | None \<Rightarrow> Again (w', drop (nat (ChunkSize (driver w) - int (length (pendingPart w)))) p,
                                   n + (ChunkSize (driver w) - int (length (pendingPart w))), tr @ reqs)))
         else Again (w\<lparr>pendingPart := pendingPart w @ p\<rparr>, [], n + int (length p), tr)
       else Again (w, p, n, tr)
     else Return (w0\<lparr>size_w := size_w w0 + n0\<rparr>, n0, None, tr))"
  using assms by (simp add: Write_round_def Let_def)

lemma fill_ready_full:
  assumes "fill_ready (w, p, n) = (w', p', n')" "p' \<noteq> []"
  shows "ChunkSize (driver w') \<le> int (length (readyPart w'))"
  using assms
  by (auto simp: fill_ready_def Let_def split: if_splits)

lemma fill_ready_shrink:
  assumes "fill_ready (w, p, n) = (w', p', n')"
  shows "length p' \<le> length p"
  using assms
  by (auto simp: fill_ready_def Let_def split: if_splits)

lemma Write_round_Again:
  assumes "Write_round s (w0, p0, n0, tr0) = Again (w1, p1, n1, tr1)"
  shows "parts_size w1 + buffered w1 - n1 = parts_size w0 + buffered w0 - n0"
    and "n1 + int (length p1) = n0 + int (length p0)"
    and "n0 \<le> n1"
    and "same_writer w0 w1" and "size_w w1 = size_w w0"
    and "\<exists>tr2. tr1 = tr0 @ tr2"
    and "buffers_ok w0 \<Longrightarrow> buffers_ok w1"
    and "0 < ChunkSize (driver w0) \<Longrightarrow> int (length (pendingPart w0)) < ChunkSize (driver w0)
         \<Longrightarrow> int (length (pendingPart w1)) < ChunkSize (driver w1) \<and> length p1 < length p0"
proof -
  obtain w p n where f: "fill_ready (w0, p0, n0) = (w, p, n)"
    by (metis prod_cases3)
  note fp = fill_ready_props[OF f] fill_ready_bound[OF f] fill_ready_shrink[OF f]
  let ?need = "ChunkSize (driver w) - int (length (pendingPart w))"
  let ?wp = "w\<lparr>pendingPart := pendingPart w @ take (nat ?need) p\<rparr>"
  obtain wf ef reqs where fl: "flushPart s ?wp = (wf, ef, reqs)"
    by (metis prod_cases3)
  note ff = flushPart_fixed[OF fl] flushPart_flags[OF fl] flushPart_total[OF fl]
  have r: "Write_round s (w0, p0, n0, tr0) = Again (w1, p1, n1, tr1)" by (rule assms)
  note c = r[unfolded Write_round_cases[OF f] fl]
  show "parts_size w1 + buffered w1 - n1 = parts_size w0 + buffered w0 - n0"
    using c fp ff
    by (auto simp: parts_size_def buffered_def split: if_splits option.splits)
  show "n1 + int (length p1) = n0 + int (length p0)"
    using c fp ff
    by (auto split: if_splits option.splits)
  show "n0 \<le> n1"
    using c fp ff
    by (auto split: if_splits option.splits)
  show "same_writer w0 w1"
    using c fp ff
    by (auto simp: same_writer_def split: if_splits option.splits)
  show "size_w w1 = size_w w0"
    using c fp ff
    by (auto split: if_splits option.splits)
  show "\<exists>tr2. tr1 = tr0 @ tr2"
    using c
    by (auto split: if_splits option.splits)
  show "buffers_ok w1" if "buffers_ok w0"
  proof -
    have bw: "int (length (readyPart w)) \<le> ChunkSize (driver w)" "int (length (pendingPart w)) \<le> ChunkSize (driver w)"
      using that fp by (auto simp: buffers_ok_def)
    have "ef = None \<Longrightarrow> 0 < ?need \<Longrightarrow> ?need \<le> int (length p) \<Longrightarrow> buffers_ok wf"
      using flushPart_buffers_ok[of ?wp s wf reqs] fl bw by (simp add: buffers_ok_def)
    then show ?thesis
      using c bw by (auto simp: buffers_ok_def split: if_splits option.splits)
  qed
  show "int (length (pendingPart w1)) < ChunkSize (driver w1) \<and> length p1 < length p0"
    if "0 < ChunkSize (driver w0)" "int (length (pendingPart w0)) < ChunkSize (driver w0)"
  proof -
    have pos: "0 < ?need" using that fp by simp
    have ne: "p0 \<noteq> []" using c by (auto split: if_splits)
    show ?thesis
    proof (cases "?need \<le> int (length p)")
      case True
      then have ef: "ef = None" and w1: "w1 = wf" and p1: "p1 = drop (nat ?need) p"
        using c pos by (auto split: if_splits option.splits)
      have "pendingPart wf = []"
        using fl ef pos True by (auto simp: flushPart_def Let_def split: if_splits sum.splits)
      moreover have "driver wf = driver w0" using ff fp by simp
      moreover have "length p1 < length p0" using p1 pos True fp by auto
      ultimately show ?thesis using w1 that by simp
    next
      case False
      then have w1: "w1 = w\<lparr>pendingPart := pendingPart w @ p\<rparr>" and p1: "p1 = []"
        using c pos by (auto split: if_splits option.splits)
      then show ?thesis using False ne fp by auto
    qed
  qed
qed

lemma Write_round_Return:
  assumes "Write_round s (w0, p0, n0, tr0) = Return (w', n', e, tr')"
  shows "size_w w' = size_w w0 + n'"
    and "parts_size w' + buffered w' - n' = parts_size w0 + buffered w0 - n0"
    and "n0 \<le> n'" and "n' \<le> n0 + int (length p0)"
    and "same_writer w0 w'"
    and "\<exists>tr2. tr' = tr0 @ tr2"
    and "buffers_ok w0 \<Longrightarrow> buffers_ok w'"
    and "e \<noteq> None \<Longrightarrow> tr' \<noteq> [] \<and> last tr' = upload_request w' \<and> isl (UploadPart s (upload_request w'))
           \<and> e = parseError (key w') (Some (projl (UploadPart s (upload_request w'))))
           \<and> int (length (pendingPart w')) = ChunkSize (driver w')
           \<and> ChunkSize (driver w') \<le> int (length (readyPart w'))"
proof -
  obtain w p n where f: "fill_ready (w0, p0, n0) = (w, p, n)"
    by (metis prod_cases3)
  note fp = fill_ready_props[OF f] fill_ready_bound[OF f] fill_ready_shrink[OF f]
  let ?need = "ChunkSize (driver w) - int (length (pendingPart w))"
  let ?wp = "w\<lparr>pendingPart := pendingPart w @ take (nat ?need) p\<rparr>"
  obtain wf ef reqs where fl: "flushPart s ?wp = (wf, ef, reqs)"
    by (metis prod_cases3)
  note ff = flushPart_fixed[OF fl] flushPart_flags[OF fl] flushPart_total[OF fl]
  have r: "Write_round s (w0, p0, n0, tr0) = Return (w', n', e, tr')" by (rule assms)
  note c = r[unfolded Write_round_cases[OF f] fl]
  show "size_w w' = size_w w0 + n'"
    using c fp ff
    by (auto split: if_splits option.splits)
  show "parts_size w' + buffered w' - n' = parts_size w0 + buffered w0 - n0"
    using c fp ff
    by (auto simp: parts_size_def buffered_def split: if_splits option.splits)
  show "n0 \<le> n'"
    using c fp ff
    by (auto split: if_splits option.splits)
  show "n' \<le> n0 + int (length p0)"
    using c fp ff
    by (auto split: if_splits option.splits)
  show "same_writer w0 w'"
    using c fp ff
    by (auto simp: same_writer_def split: if_splits option.splits)
  show "\<exists>tr2. tr' = tr0 @ tr2"
    using c
    by (auto split: if_splits option.splits)
  have full: "ChunkSize (driver ?wp) \<le> int (length (pendingPart ?wp))"
    if "0 < ?need" "?need \<le> int (length p)"
    using that by simp
  have fail: "wf = ?wp \<and> reqs = [upload_request ?wp] \<and> isl (UploadPart s (upload_request ?wp))
                \<and> ef = parseError (key ?wp) (Some (projl (UploadPart s (upload_request ?wp))))"
    if "0 < ?need" "?need \<le> int (length p)" "ef \<noteq> None"
    using fl that
    by (auto simp: flushPart_def Let_def split: if_splits sum.splits)
  show "buffers_ok w'" if "buffers_ok w0"
  proof -
    have bw: "int (length (readyPart w)) \<le> ChunkSize (driver w)" "int (length (pendingPart w)) \<le> ChunkSize (driver w)"
      using that fp by (auto simp: buffers_ok_def)
    show ?thesis
    proof (cases "p0 = []")
      case True
      then show ?thesis using c that by (auto simp: buffers_ok_def)
    next
      case False
      then have 1: "0 < ?need" "?need \<le> int (length p)" "ef \<noteq> None"
        and 2: "w' = wf\<lparr>size_w := size_w wf + (n + ?need)\<rparr>"
        using c by (auto split: if_splits option.splits)
      from fail[OF 1] 2 bw 1 show ?thesis by (auto simp: buffers_ok_def)
    qed
  qed
  show "tr' \<noteq> [] \<and> last tr' = upload_request w' \<and> isl (UploadPart s (upload_request w'))
           \<and> e = parseError (key w') (Some (projl (UploadPart s (upload_request w'))))
           \<and> int (length (pendingPart w')) = ChunkSize (driver w')
           \<and> ChunkSize (driver w') \<le> int (length (readyPart w'))" if "e \<noteq> None"
  proof -
    have ne: "p0 \<noteq> []" using c that by (auto split: if_splits)
    then have 1: "0 < ?need" "?need \<le> int (length p)" "ef \<noteq> None"
        and 2: "w' = wf\<lparr>size_w := size_w wf + (n + ?need)\<rparr>" "tr' = tr0 @ reqs" "e = ef"
      using c by (auto split: if_splits option.splits)
    have pne: "p \<noteq> []" using 1 by auto
    have rf: "ChunkSize (driver w) \<le> int (length (readyPart w))"
      using fill_ready_full[OF f pne] .
    from fail[OF 1] 2 1 rf show ?thesis by (auto simp: upload_request_def)
  qed
qed

lemma same_writer_refl [simp]: "same_writer w w"
  by (simp add: same_writer_def)

lemma same_writer_trans: "same_writer a b \<Longrightarrow> same_writer b c \<Longrightarrow> same_writer a c"
  by (simp add: same_writer_def)

lemma Write_loop_post:
  assumes run: "Write_loop s (w0, p0, n0, tr0) = Some (w', n', e, tr')"
  shows "size_w w' = size_w w0 + n'"
    and "parts_size w' + buffered w' - n' = parts_size w0 + buffered w0 - n0"
    and "n0 \<le> n'" and "n' \<le> n0 + int (length p0)"
    and "same_writer w0 w'"
    and "\<exists>tr2. tr' = tr0 @ tr2"
    and "buffers_ok w0 \<Longrightarrow> buffers_ok w'"
    and "e \<noteq> None \<Longrightarrow> tr' \<noteq> [] \<and> last tr' = upload_request w' \<and> isl (UploadPart s (upload_request w'))
           \<and> e = parseError (key w') (Some (projl (UploadPart s (upload_request w'))))
           \<and> int (length (pendingPart w')) = ChunkSize (driver w')
           \<and> ChunkSize (driver w') \<le> int (length (readyPart w'))"
proof -
  define I where "I = (\<lambda>st :: writer \<times> bytes \<times> int \<times> request list. case st of (w, p, n, tr) \<Rightarrow>
      size_w w = size_w w0
      \<and> parts_size w + buffered w - n = parts_size w0 + buffered w0 - n0
      \<and> n0 \<le> n \<and> n + int (length p) = n0 + int (length p0)
      \<and> same_writer w0 w \<and> (\<exists>tr2. tr = tr0 @ tr2)
      \<and> (buffers_ok w0 \<longrightarrow> buffers_ok w))"
  define Q where "Q = (\<lambda>r :: writer \<times> int \<times> error option \<times> request list. case r of (w', n', e, tr') \<Rightarrow>
      size_w w' = size_w w0 + n'
      \<and> parts_size w' + buffered w' - n' = parts_size w0 + buffered w0 - n0
      \<and> n0 \<le> n' \<and> n' \<le> n0 + int (length p0)
      \<and> same_writer w0 w' \<and> (\<exists>tr2. tr' = tr0 @ tr2)
      \<and> (buffers_ok w0 \<longrightarrow> buffers_ok w')
      \<and> (e \<noteq> None \<longrightarrow> tr' \<noteq> [] \<and> last tr' = upload_request w' \<and> isl (UploadPart s (upload_request w'))
           \<and> e = parseError (key w') (Some (projl (UploadPart s (upload_request w'))))
           \<and> int (length (pendingPart w')) = ChunkSize (driver w')
           \<and> ChunkSize (driver w') \<le> int (length (readyPart w'))))"
  have init: "I (w0, p0, n0, tr0)" by (simp add: I_def)
  have again: "I st'" if "I st" "Write_round s st = Again st'" for st st'
  proof -
    obtain w p n tr where st: "st = (w, p, n, tr)" by (metis prod_cases4)
    obtain w1 p1 n1 tr1 where st': "st' = (w1, p1, n1, tr1)" by (metis prod_cases4)
    note a = Write_round_Again[OF that(2)[unfolded st st']]
    have i: "size_w w = size_w w0" "parts_size w + buffered w - n = parts_size w0 + buffered w0 - n0"
      "n0 \<le> n" "n + int (length p) = n0 + int (length p0)" "same_writer w0 w"
      "\<exists>tr2. tr = tr0 @ tr2" "buffers_ok w0 \<longrightarrow> buffers_ok w"
      using that(1) unfolding I_def st prod.case by blast+
    have 1: "size_w w1 = size_w w0" using i(1) a(5) by simp
    have 2: "parts_size w1 + buffered w1 - n1 = parts_size w0 + buffered w0 - n0"
      using i(2) a(1) by simp
    have 3: "n0 \<le> n1" using i(3) a(3) by simp
    have 4: "n1 + int (length p1) = n0 + int (length p0)" using i(4) a(2) by simp
    have 5: "same_writer w0 w1" using i(5) a(4) by (rule same_writer_trans)
    have 6: "\<exists>tr2. tr1 = tr0 @ tr2" using i(6) a(6) by auto
    have 7: "buffers_ok w0 \<longrightarrow> buffers_ok w1" using i(7) a(7) by blast
    from 1 2 3 4 5 6 7 show ?thesis
      unfolding I_def st' prod.case by blast
  qed
  have return: "Q r" if "I st" "Write_round s st = Return r" for st r
  proof -
    obtain w p n tr where st: "st = (w, p, n, tr)" by (metis prod_cases4)
    obtain w1 n1 e1 tr1 where r: "r = (w1, n1, e1, tr1)" by (metis prod_cases4)
    note a = Write_round_Return[OF that(2)[unfolded st r]]
    have i: "size_w w = size_w w0" "parts_size w + buffered w - n = parts_size w0 + buffered w0 - n0"
      "n0 \<le> n" "n + int (length p) = n0 + int (length p0)" "same_writer w0 w"
      "\<exists>tr2. tr = tr0 @ tr2" "buffers_ok w0 \<longrightarrow> buffers_ok w"
      using that(1) unfolding I_def st prod.case by blast+
    have 1: "size_w w1 = size_w w0 + n1" using i(1) a(1) by simp
    have 2: "parts_size w1 + buffered w1 - n1 = parts_size w0 + buffered w0 - n0"
      using i(2) a(2) by simp
    have 3: "n0 \<le> n1" using i(3) a(3) by simp
    have 4: "n1 \<le> n0 + int (length p0)" using i(4) a(4) by simp
    have 5: "same_writer w0 w1" using i(5) a(5) by (rule same_writer_trans)
    have 6: "\<exists>tr2. tr1 = tr0 @ tr2" using i(6) a(6) by auto
    have 7: "buffers_ok w0 \<longrightarrow> buffers_ok w1" using i(7) a(7) by blast
    have 8: "e1 \<noteq> None \<longrightarrow> tr1 \<noteq> [] \<and> last tr1 = upload_request w1 \<and> isl (UploadPart s (upload_request w1))
           \<and> e1 = parseError (key w1) (Some (projl (UploadPart s (upload_request w1))))
           \<and> int (length (pendingPart w1)) = ChunkSize (driver w1)
           \<and> ChunkSize (driver w1) \<le> int (length (readyPart w1))"
      using a(8) by blast
    show ?thesis
      unfolding Q_def r prod.case
      by (intro conjI) (fact 1 2 3 4 5 6 7 8)+
  qed
  have "Q (w', n', e, tr')"
    by (rule Write_loop_rule[OF run, of I Q]) (fact init again return)+
  then have q: "size_w w' = size_w w0 + n'
      \<and> parts_size w' + buffered w' - n' = parts_size w0 + buffered w0 - n0
      \<and> n0 \<le> n' \<and> n' \<le> n0 + int (length p0)
      \<and> same_writer w0 w' \<and> (\<exists>tr2. tr' = tr0 @ tr2)
      \<and> (buffers_ok w0 \<longrightarrow> buffers_ok w')
      \<and> (e \<noteq> None \<longrightarrow> tr' \<noteq> [] \<and> last tr' = upload_request w' \<and> isl (UploadPart s (upload_request w'))
           \<and> e = parseError (key w') (Some (projl (UploadPart s (upload_request w'))))
           \<and> int (length (pendingPart w')) = ChunkSize (driver w')
           \<and> ChunkSize (driver w') \<le> int (length (readyPart w')))"
    unfolding Q_def prod.case .
  from q show "size_w w' = size_w w0 + n'"
    and "parts_size w' + buffered w' - n' = parts_size w0 + buffered w0 - n0"
    and "n0 \<le> n'" and "n' \<le> n0 + int (length p0)"
    and "same_writer w0 w'"
    and "\<exists>tr2. tr' = tr0 @ tr2"
    and "buffers_ok w0 \<Longrightarrow> buffers_ok w'"
    and "e \<noteq> None \<Longrightarrow> tr' \<noteq> [] \<and> last tr' = upload_request w' \<and> isl (UploadPart s (upload_request w'))
           \<and> e = parseError (key w') (Some (projl (UploadPart s (upload_request w'))))
           \<and> int (length (pendingPart w')) = ChunkSize (driver w')
           \<and> ChunkSize (driver w') \<le> int (length (readyPart w'))"
    by blast+
qed

lemma Write_loop_returns:
  assumes "0 < ChunkSize (driver w)" "int (length (pendingPart w)) < ChunkSize (driver w)"
  shows "\<exists>r. Write_loop s (w, p, n, tr) = Some r"
  using assms
proof (induction "length p" arbitrary: w p n tr rule: less_induct)
  case less
  show ?case
  proof (cases "Write_round s (w, p, n, tr)")
    case (Return r)
    then have "Write_loop s (w, p, n, tr) = Some r" by (subst Write_loop.simps) simp
    then show ?thesis by blast
  next
    case (Again st')
    obtain w1 p1 n1 tr1 where st': "st' = (w1, p1, n1, tr1)" by (metis prod_cases4)
    note a = Write_round_Again[OF Again[unfolded st']]
    have d: "driver w1 = driver w" using a(4) by (simp add: same_writer_def)
    have "int (length (pendingPart w1)) < ChunkSize (driver w1) \<and> length p1 < length p"
      using a(8) less.prems by blast
    then have "\<exists>r. Write_loop s (w1, p1, n1, tr1) = Some r"
      using less.hyps[of p1 w1 n1 tr1] less.prems d by simp
    then obtain r where "Write_loop s (w1, p1, n1, tr1) = Some r" by blast
    then have "Write_loop s (w, p, n, tr) = Some r"
      using Again st' by (subst Write_loop.simps) simp
    then show ?thesis by blast
  qed
qed

lemma Write_loop_stuck:
  assumes "p \<noteq> []" "ChunkSize (driver w) \<le> int (length (readyPart w))"
    "ChunkSize (driver w) \<le> int (length (pendingPart w))"
  shows "Write_loop s (w, p, n, tr) = None"
proof (rule ccontr)
  assume "Write_loop s (w, p, n, tr) \<noteq> None"
  then obtain r where run: "Write_loop s (w, p, n, tr) = Some r" by blast
  have stay: "Write_round s (w, p, n, tr) = Again (w, p, n, tr)"
    using assms by (simp add: Write_round_def fill_ready_def Let_def)
  have "False"
    by (rule Write_loop_rule[OF run, of "\<lambda>st. st = (w, p, n, tr)" "\<lambda>r. False"])
       (use stay in auto)
  then show False .
qed

lemmas ex_defs = example_driver_def s3_ok_def s3_upload_fails_def fresh_writer_def newWriter_def
  ten_MiB_def twenty_MiB_def writer_abc_def resumed_writer_def

lemmas ex2_defs = ex_defs eleven_MiB_def one_MiB_def writer_eleven_def

lemmas ex3_defs = ex2_defs closed_writer_def write_commit_close_def committed_writer_def
  committed_closed_writer_def cancelled_writer_def

lemma parseError_Some_ex [simp]: "\<exists>y. parseError k (Some e) = Some y"
  using parseError_Some[of k e] by blast

lemma recover_Inr:
  assumes "recover s w = Inr (w0, tr0)"
  shows "same_writer w w0" and "size_w w0 = size_w w"
  using assms
  by (auto simp: recover_def Let_def same_writer_def split: if_splits option.splits sum.splits)

lemma recover_Inl:
  assumes "recover s w = Inl (w0, e, tr0)"
  shows "same_writer w w0" and "size_w w0 = size_w w" and "e \<noteq> None"
  using assms
  by (auto simp: recover_def Let_def same_writer_def split: if_splits option.splits sum.splits)

lemma recover_invariants:
  assumes "recovery_exact s w" "size_ok w" "buffers_ok w"
  shows "recover s w = Inr (w0, tr0) \<Longrightarrow> size_ok w0 \<and> buffers_ok w0"
    and "recover s w = Inl (w0, e, tr0) \<Longrightarrow> size_ok w0 \<and> buffers_ok w0"
  using assms
  by (auto simp: recover_def recovery_exact_def Let_def size_ok_def buffers_ok_def parts_size_def
        buffered_def get_request_def
      split: if_splits option.splits sum.splits)

lemma Write_guard_flags:
  "Write_guard w = None \<longleftrightarrow> \<not> closed w \<and> \<not> committed w \<and> \<not> cancelled w"
  by (simp add: Write_guard_def)


lemma Write_same:
  assumes "Write s w p = Some (w', n, e, tr)"
  shows "same_writer w w'" and "size_w w' = size_w w + n" and "0 \<le> n" and "n \<le> int (length p)"
proof -
  show "same_writer w w'"
  proof (cases "Write_guard w")
    case (Some err)
    with assms show ?thesis by (simp add: Write_def)
  next
    case None
    show ?thesis
    proof (cases "recover s w")
      case (Inl a)
      obtain w0 e0 tr0 where a: "a = (w0, e0, tr0)" by (metis prod_cases3)
      with assms None Inl have "w' = w0" by (simp add: Write_def)
      with recover_Inl(1)[OF Inl[unfolded a]] show ?thesis by simp
    next
      case (Inr b)
      obtain w0 tr0 where b: "b = (w0, tr0)" by (metis prod.collapse)
      with assms None Inr have l: "Write_loop s (w0, p, 0, tr0) = Some (w', n, e, tr)"
        by (simp add: Write_def)
      from recover_Inr(1)[OF Inr[unfolded b]] Write_loop_post(5)[OF l]
      show ?thesis by (rule same_writer_trans)
    qed
  qed
  show "size_w w' = size_w w + n" "0 \<le> n" "n \<le> int (length p)"
  proof -
    have "size_w w' = size_w w + n \<and> 0 \<le> n \<and> n \<le> int (length p)"
    proof (cases "Write_guard w")
      case (Some err)
      with assms show ?thesis by (simp add: Write_def)
    next
      case None
      show ?thesis
      proof (cases "recover s w")
        case (Inl a)
        obtain w0 e0 tr0 where a: "a = (w0, e0, tr0)" by (metis prod_cases3)
        with assms None Inl have "w' = w0" "n = 0" by (simp_all add: Write_def)
        with recover_Inl(2)[OF Inl[unfolded a]] show ?thesis by simp
      next
        case (Inr b)
        obtain w0 tr0 where b: "b = (w0, tr0)" by (metis prod.collapse)
        with assms None Inr have l: "Write_loop s (w0, p, 0, tr0) = Some (w', n, e, tr)"
          by (simp add: Write_def)
        from recover_Inr(2)[OF Inr[unfolded b]] Write_loop_post(1,3,4)[OF l]
        show ?thesis by simp
      qed
    qed
    then show "size_w w' = size_w w + n" "0 \<le> n" "n \<le> int (length p)" by blast+
  qed
qed




text \<open>
  The guard of a later \<open>Write\<close> lets it through, but with both buffers full neither takes a
  byte: a later \<open>Write\<close> of a non-empty buffer does not return.
\<close>

lemma Write_stuck:
  assumes "Write_guard w = None" "recover s w = Inr (w0, tr0)" "p \<noteq> []"
    "ChunkSize (driver w0) \<le> int (length (readyPart w0))"
    "ChunkSize (driver w0) \<le> int (length (pendingPart w0))"
  shows "Write s w p = None"
  using assms Write_loop_stuck[of p w0 s 0 tr0] by (simp add: Write_def)

lemma Write_stuck_example:
  "Write s3_ok (fresh_writer\<lparr>readyPart := ten_MiB, pendingPart := ten_MiB, size_w := 20971520\<rparr>) ''x'' = None"
  by (rule Write_stuck[where ?w0.0 = "fresh_writer\<lparr>readyPart := ten_MiB, pendingPart := ten_MiB, size_w := 20971520\<rparr>" and ?tr0.0 = "[]"])
     (simp_all add: Write_guard_def recover_def short_tail_def ex_defs)

lemma recover_pending:
  "recover s w = Inr (w0, tr0) \<Longrightarrow> pendingPart w0 = pendingPart w \<and> driver w0 = driver w"
  by (auto simp: recover_def Let_def split: if_splits option.splits sum.splits)

lemma Write_returns:
  assumes "0 < ChunkSize (driver w)" "int (length (pendingPart w)) < ChunkSize (driver w)"
  shows "Write s w p \<noteq> None"
proof (cases "Write_guard w")
  case (Some err)
  then show ?thesis by (simp add: Write_def)
next
  case None
  show ?thesis
  proof (cases "recover s w")
    case (Inl a)
    then show ?thesis using None by (simp add: Write_def split: prod.splits)
  next
    case (Inr b)
    obtain w0 tr0 where b: "b = (w0, tr0)" by (metis prod.collapse)
    have "pendingPart w0 = pendingPart w \<and> driver w0 = driver w"
      using recover_pending Inr b by blast
    then have "\<exists>r. Write_loop s (w0, p, 0, tr0) = Some r"
      using Write_loop_returns[of w0 s p 0 tr0] assms by simp
    then show ?thesis using None Inr b by (auto simp: Write_def)
  qed
qed

lemma Write_invariants:
  assumes "size_ok w" "buffers_ok w" "recovery_exact s w" "Write s w p = Some (w', n, e, tr)"
  shows "size_ok w' \<and> buffers_ok w'"
proof (cases "Write_guard w")
  case (Some err)
  with assms show ?thesis by (simp add: Write_def)
next
  case None
  show ?thesis
  proof (cases "recover s w")
    case (Inl a)
    obtain w0 e0 tr0 where a: "a = (w0, e0, tr0)" by (metis prod_cases3)
    with assms None Inl have "w' = w0" by (simp add: Write_def)
    with recover_invariants(2)[OF assms(3,1,2) Inl[unfolded a]] show ?thesis by simp
  next
    case (Inr b)
    obtain w0 tr0 where b: "b = (w0, tr0)" by (metis prod.collapse)
    with assms None Inr have l: "Write_loop s (w0, p, 0, tr0) = Some (w', n, e, tr)"
      by (simp add: Write_def)
    have i: "size_ok w0" "buffers_ok w0"
      using recover_invariants(1)[OF assms(3,1,2) Inr[unfolded b]] by simp_all
    note post = Write_loop_post[OF l]
    have "size_ok w'" using i(1) post(1,2) by (simp add: size_ok_def)
    moreover have "buffers_ok w'" using i(2) post(7) by simp
    ultimately show ?thesis by simp
  qed
qed

text \<open>
  C4 (amended). A new writer satisfies \<open>size = \<Sum> parts.size + |readyPart| + |pendingPart|\<close>.
  \<open>flushPart\<close> preserves this equation whether or not its upload succeeds, and preserves
  the bounds \<open>|readyPart| \<le> ChunkSize\<close> and \<open>|pendingPart| \<le> ChunkSize\<close> when its upload
  succeeds. Every \<open>Write\<close> that returns preserves the equation and the bounds, provided that
  a small-tail recovery in it starts with both buffers empty, with
  \<open>ChunkSize \<ge> minChunkSize\<close>, and that the GET of the completed object yields exactly
  \<open>size\<close> bytes; and \<open>Write\<close> does return when \<open>ChunkSize\<close> is positive and \<open>pendingPart\<close>
  is not full.
\<close>

theorem writer_accounting_preserved:
  "size_ok (newWriter d k u ps)
   \<and> (size_ok w \<longrightarrow> size_ok (fst (flushPart s w)))
   \<and> (buffers_ok w \<longrightarrow> fst (snd (flushPart s w)) = None \<longrightarrow> buffers_ok (fst (flushPart s w)))
   \<and> (size_ok w \<longrightarrow> buffers_ok w \<longrightarrow> recovery_exact s w \<longrightarrow> Write s w p = Some (w', n, e, tr)
        \<longrightarrow> size_ok w' \<and> buffers_ok w')
   \<and> (0 < ChunkSize (driver w) \<longrightarrow> int (length (pendingPart w)) < ChunkSize (driver w)
        \<longrightarrow> Write s w p \<noteq> None)"
proof (intro conjI impI)
  show "size_ok (newWriter d k u ps)"
    by (simp add: size_ok_def newWriter_def parts_size_def buffered_def)
next
  assume "size_ok w"
  then show "size_ok (fst (flushPart s w))"
    using flushPart_size_ok[of w s] by (metis prod.collapse)
next
  assume "buffers_ok w" "fst (snd (flushPart s w)) = None"
  then show "buffers_ok (fst (flushPart s w))"
    using flushPart_buffers_ok[of w s] by (metis prod.collapse)
next
  assume "size_ok w" "buffers_ok w" "recovery_exact s w" "Write s w p = Some (w', n, e, tr)"
  then show "size_ok w'" "buffers_ok w'"
    using Write_invariants by blast+
next
  assume "0 < ChunkSize (driver w)" "int (length (pendingPart w)) < ChunkSize (driver w)"
  then show "Write s w p \<noteq> None" by (rule Write_returns)
qed

lemma resumed_Write:
  "Write s3_ok resumed_writer ''def'' =
     Some (resumed_writer\<lparr>uploadID := ''upload-2'', parts := [], readyPart := ''abcdef'',
                           size_w := 6\<rparr>, 3, None,
           [CompleteMultipartUploadInput ''bucket'' ''k'' ''upload-1'' [(''etag'', 1)],
            CreateMultipartUploadInput ''bucket'' ''k'',
            GetObjectInput ''bucket'' ''k'' None])"
  by (simp add: Write_def Write_guard_def recover_def short_tail_def ex_defs Write_loop.simps
        Write_round_def fill_ready_def Let_def minChunkSize_def complete_request_def
        create_request_def get_request_def completedParts_def)

theorem writer_accounting_preserved_witness:
  "size_ok resumed_writer \<and> buffers_ok resumed_writer \<and> recovery_exact s3_ok resumed_writer
   \<and> fst (snd (flushPart s3_ok resumed_writer)) = None
   \<and> 0 < ChunkSize (driver resumed_writer)
   \<and> int (length (pendingPart resumed_writer)) < ChunkSize (driver resumed_writer)
   \<and> Write s3_ok resumed_writer ''def'' =
       Some (resumed_writer\<lparr>uploadID := ''upload-2'', parts := [], readyPart := ''abcdef'',
                             size_w := 6\<rparr>, 3, None,
             [CompleteMultipartUploadInput ''bucket'' ''k'' ''upload-1'' [(''etag'', 1)],
              CreateMultipartUploadInput ''bucket'' ''k'',
              GetObjectInput ''bucket'' ''k'' None])
   \<and> size_ok (fst (flushPart s3_ok resumed_writer))
   \<and> buffers_ok (fst (flushPart s3_ok resumed_writer))
   \<and> size_ok (resumed_writer\<lparr>uploadID := ''upload-2'', parts := [], readyPart := ''abcdef'',
                               size_w := 6\<rparr>)
   \<and> buffers_ok (resumed_writer\<lparr>uploadID := ''upload-2'', parts := [], readyPart := ''abcdef'',
                                  size_w := 6\<rparr>)"
proof -
  have h1: "size_ok resumed_writer"
    by (simp add: size_ok_def parts_size_def buffered_def ex_defs)
  have h2: "buffers_ok resumed_writer"
    by (simp add: buffers_ok_def ex_defs)
  have h3: "recovery_exact s3_ok resumed_writer"
    by (simp add: recovery_exact_def short_tail_def minChunkSize_def get_request_def ex_defs)
  have h4: "fst (snd (flushPart s3_ok resumed_writer)) = None"
    by (simp add: flushPart_def ex_defs)
  have h5: "0 < ChunkSize (driver resumed_writer)"
    "int (length (pendingPart resumed_writer)) < ChunkSize (driver resumed_writer)"
    by (simp_all add: ex_defs)
  note h6 = resumed_Write
  from writer_accounting_preserved[of example_driver "''k''" "''upload-1''" "[]" resumed_writer
         s3_ok "''def''"
         "resumed_writer\<lparr>uploadID := ''upload-2'', parts := [], readyPart := ''abcdef'', size_w := 6\<rparr>"
         3 None
         "[CompleteMultipartUploadInput ''bucket'' ''k'' ''upload-1'' [(''etag'', 1)],
           CreateMultipartUploadInput ''bucket'' ''k'', GetObjectInput ''bucket'' ''k'' None]"]
       h1 h2 h3 h4 h5 h6
  show ?thesis by blast
qed

lemma eleven_Write:
  "Write s3_ok fresh_writer eleven_MiB = Some (writer_eleven, 11534336, None, [])"
  by (simp add: Write_def Write_guard_def recover_def short_tail_def ex2_defs Write_loop.simps
        Write_round_def fill_ready_def Let_def)

text \<open>
  The bounds do not hold between any two public calls: after eleven MiB are written with
  the default chunk size of ten MiB, a \<open>Commit\<close> whose upload fails returns with no flag
  set and with all eleven MiB in \<open>readyPart\<close>.
\<close>

theorem ready_part_exceeds_chunk_size:
  "Write s3_ok fresh_writer eleven_MiB = Some (writer_eleven, 11534336, None, [])
   \<and> size_ok writer_eleven \<and> buffers_ok writer_eleven
   \<and> flags (fst (Commit s3_upload_fails writer_eleven)) = (False, False, False)
   \<and> length (readyPart (fst (Commit s3_upload_fails writer_eleven))) = 11534336
   \<and> ChunkSize (driver (fst (Commit s3_upload_fails writer_eleven))) = 10485760
   \<and> \<not> buffers_ok (fst (Commit s3_upload_fails writer_eleven))
   \<and> \<not> buffers_ok (fst (flushPart s3_upload_fails writer_eleven))"
proof -
  have c: "fst (Commit s3_upload_fails writer_eleven)
             = fresh_writer\<lparr>readyPart := ten_MiB @ one_MiB, pendingPart := [], size_w := 11534336\<rparr>"
    by (simp add: Commit_def Write_guard_def flushPart_def upload_request_def Let_def ex2_defs)
  have f: "fst (flushPart s3_upload_fails writer_eleven)
             = fresh_writer\<lparr>readyPart := ten_MiB @ one_MiB, pendingPart := [], size_w := 11534336\<rparr>"
    by (simp add: flushPart_def upload_request_def Let_def ex2_defs)
  have 1: "size_ok writer_eleven"
    by (simp add: size_ok_def parts_size_def buffered_def ex2_defs)
  have 2: "buffers_ok writer_eleven"
    by (simp add: buffers_ok_def ex2_defs)
  have 3: "flags (fst (Commit s3_upload_fails writer_eleven)) = (False, False, False)"
    unfolding c by (simp add: flags_def ex2_defs)
  have 4: "length (readyPart (fst (Commit s3_upload_fails writer_eleven))) = 11534336"
    unfolding c by (simp add: ex2_defs)
  have 5: "ChunkSize (driver (fst (Commit s3_upload_fails writer_eleven))) = 10485760"
    unfolding c by (simp add: ex2_defs)
  have 6: "\<not> buffers_ok (fst (Commit s3_upload_fails writer_eleven))"
    unfolding c by (simp add: buffers_ok_def ex2_defs)
  have 7: "\<not> buffers_ok (fst (flushPart s3_upload_fails writer_eleven))"
    unfolding f by (simp add: buffers_ok_def ex2_defs)
  from eleven_Write 1 2 3 4 5 6 7 show ?thesis by blast
qed







subsection \<open>The terminal flags\<close>

lemma Close_flags:
  "closed (fst (Close s w)) \<and> committed (fst (Close s w)) = committed w
   \<and> cancelled (fst (Close s w)) = cancelled w"
proof (cases "closed w")
  case True
  then show ?thesis by (simp add: Close_def Close_guard_def)
next
  case False
  obtain w' e tr where f: "flushPart s (w\<lparr>closed := True\<rparr>) = (w', e, tr)"
    by (metis prod_cases3)
  from flushPart_flags[OF f] False f show ?thesis
    by (simp add: Close_def Close_guard_def)
qed

lemma Cancel_flags:
  "closed (fst (Cancel s w)) = closed w \<and> committed (fst (Cancel s w)) = committed w
   \<and> (cancelled w \<longrightarrow> cancelled (fst (Cancel s w)))
   \<and> (cancelled (fst (Cancel s w)) \<longrightarrow> cancelled w \<or> \<not> committed w)"
  by (simp add: Cancel_def Cancel_guard_def Let_def)

lemma Commit_flags:
  "closed (fst (Commit s w)) = closed w \<and> cancelled (fst (Commit s w)) = cancelled w
   \<and> (committed w \<longrightarrow> committed (fst (Commit s w)))
   \<and> (committed (fst (Commit s w)) \<longrightarrow> committed w \<or> \<not> cancelled w)"
proof (cases "Write_guard w")
  case (Some err)
  then show ?thesis by (simp add: Commit_def)
next
  case None
  obtain w' e tr where f: "flushPart s w = (w', e, tr)"
    by (metis prod_cases3)
  from flushPart_flags[OF f] None f show ?thesis
    by (auto simp: Commit_def Let_def Write_guard_flags split: option.splits)
qed

lemma exec_flags:
  assumes "exec w c = Some (w', e)"
  shows "flags_le w w'" and "\<not> (committed w \<and> cancelled w) \<Longrightarrow> \<not> (committed w' \<and> cancelled w')"
proof -
  obtain k s where c: "c = (k, s)" by (metis prod.collapse)
  have "flags_le w w' \<and> (\<not> (committed w \<and> cancelled w) \<longrightarrow> \<not> (committed w' \<and> cancelled w'))"
  proof (cases k)
    case (WriteCall p)
    with assms c obtain n tr where "Write s w p = Some (w', n, e, tr)"
      by (auto split: option.splits)
    from Write_same(1)[OF this] show ?thesis by (simp add: same_writer_def flags_le_def)
  next
    case CloseCall
    with assms c have "w' = fst (Close s w)" by simp
    with Close_flags[of s w] show ?thesis by (simp add: flags_le_def)
  next
    case CancelCall
    with assms c have "w' = fst (Cancel s w)" by simp
    with Cancel_flags[of s w] show ?thesis by (auto simp: flags_le_def)
  next
    case CommitCall
    with assms c have "w' = fst (Commit s w)" by simp
    with Commit_flags[of s w] show ?thesis by (auto simp: flags_le_def)
  qed
  then show "flags_le w w'"
    and "\<not> (committed w \<and> cancelled w) \<Longrightarrow> \<not> (committed w' \<and> cancelled w')" by blast+
qed

lemma run_flags:
  assumes "run w cs = Some w'"
  shows "flags_le w w'" and "\<not> (committed w \<and> cancelled w) \<Longrightarrow> \<not> (committed w' \<and> cancelled w')"
proof -
  have "flags_le w w' \<and> (\<not> (committed w \<and> cancelled w) \<longrightarrow> \<not> (committed w' \<and> cancelled w'))"
    using assms
  proof (induction cs arbitrary: w)
    case Nil
    then show ?case by (simp add: flags_le_def)
  next
    case (Cons c cs)
    then obtain w1 e1 where x: "exec w c = Some (w1, e1)" and r: "run w1 cs = Some w'"
      by (auto split: option.splits)
    from exec_flags[OF x] Cons.IH[OF r] show ?case by (auto simp: flags_le_def)
  qed
  then show "flags_le w w'"
    and "\<not> (committed w \<and> cancelled w) \<Longrightarrow> \<not> (committed w' \<and> cancelled w')" by blast+
qed

lemma Write_refused:
  "closed w \<or> committed w \<or> cancelled w \<Longrightarrow>
     Write s w p = Some (w, 0, Write_guard w, []) \<and> Write_guard w \<noteq> None"
  by (auto simp: Write_def Write_guard_def)

text \<open>
  C2 (amended). For every new writer and every sequence of \<open>Write\<close>, \<open>Close\<close>, \<open>Cancel\<close>
  and \<open>Commit\<close> calls that return: \<open>committed\<close> and \<open>cancelled\<close> are never both true; a
  flag that is set is never cleared by later calls; and once any flag is set, every later
  \<open>Write\<close> fails at its guard, with zero bytes written, the writer unchanged and no request
  sent. (\<open>closed\<close> can be true together with \<open>committed\<close> or \<open>cancelled\<close>.)
\<close>

theorem writer_flags:
  assumes "run (newWriter d k u ps) calls = Some w"
  shows "\<not> (committed w \<and> cancelled w)
    \<and> (\<forall>calls' w'. run w calls' = Some w' \<longrightarrow>
          (closed w \<longrightarrow> closed w') \<and> (committed w \<longrightarrow> committed w')
          \<and> (cancelled w \<longrightarrow> cancelled w'))
    \<and> (\<forall>calls' w' s p. closed w \<or> committed w \<or> cancelled w \<longrightarrow> run w calls' = Some w' \<longrightarrow>
          Write s w' p = Some (w', 0, Write_guard w', []) \<and> Write_guard w' \<noteq> None)"
proof (intro conjI allI impI)
  have "\<not> (committed (newWriter d k u ps) \<and> cancelled (newWriter d k u ps))"
    by (simp add: newWriter_def)
  then show "\<not> (committed w \<and> cancelled w)" using run_flags(2)[OF assms] by blast
next
  fix calls' w'
  assume r: "run w calls' = Some w'"
  { assume "closed w" then show "closed w'" using run_flags(1)[OF r] by (simp add: flags_le_def) }
  { assume "committed w" then show "committed w'" using run_flags(1)[OF r] by (simp add: flags_le_def) }
  { assume "cancelled w" then show "cancelled w'" using run_flags(1)[OF r] by (simp add: flags_le_def) }
next
  fix calls' w' s p
  assume f: "closed w \<or> committed w \<or> cancelled w" and r: "run w calls' = Some w'"
  then have "closed w' \<or> committed w' \<or> cancelled w'"
    using run_flags(1)[OF r] by (auto simp: flags_le_def)
  then show "Write s w' p = Some (w', 0, Write_guard w', [])" "Write_guard w' \<noteq> None"
    using Write_refused by blast+
qed

lemma write_commit_close_run:
  "run fresh_writer write_commit_close = Some committed_closed_writer"
  by (simp add: Write_def Write_guard_def recover_def short_tail_def Write_loop.simps
        Write_round_def fill_ready_def Let_def Commit_def Close_def Close_guard_def flushPart_def
        ex3_defs)

theorem writer_flags_witness:
  "run (newWriter example_driver ''k'' ''upload-1'' []) write_commit_close
     = Some committed_closed_writer
   \<and> \<not> (committed committed_closed_writer \<and> cancelled committed_closed_writer)
   \<and> closed committed_closed_writer
   \<and> run committed_closed_writer [] = Some committed_closed_writer
   \<and> Write s3_ok committed_closed_writer ''x'' =
       Some (committed_closed_writer, 0, Some (Errorf ''already closed''), [])"
proof -
  have h: "run (newWriter example_driver ''k'' ''upload-1'' []) write_commit_close
             = Some committed_closed_writer"
    using write_commit_close_run by (simp add: fresh_writer_def)
  have c: "closed committed_closed_writer" by (simp add: ex3_defs)
  have r: "run committed_closed_writer [] = Some committed_closed_writer" by simp
  have g: "Write_guard committed_closed_writer = Some (Errorf ''already closed'')"
    by (simp add: Write_guard_def ex3_defs)
  note t = writer_flags[OF h]
  from t have 1: "\<not> (committed committed_closed_writer \<and> cancelled committed_closed_writer)"
    by blast
  from t c r have "Write s3_ok committed_closed_writer ''x''
                    = Some (committed_closed_writer, 0, Write_guard committed_closed_writer, [])"
    by blast
  with g have 2: "Write s3_ok committed_closed_writer ''x'' =
       Some (committed_closed_writer, 0, Some (Errorf ''already closed''), [])" by simp
  from h 1 c r 2 show ?thesis by blast
qed

text \<open>
  The flags are not mutually exclusive: \<open>Close\<close> looks at \<open>closed\<close> only, so writing,
  committing and then closing leaves \<open>closed\<close> and \<open>committed\<close> both true.
\<close>

theorem closed_and_committed:
  "map_option flags (run fresh_writer write_commit_close) = Some (True, True, False)"
  unfolding write_commit_close_run
  by (simp add: flags_def committed_closed_writer_def committed_writer_def fresh_writer_def
        newWriter_def)





subsection \<open>Directory diff\<close>

lemma Dir_examples:
  "Dir ''/a/b/file'' = ''/a/b''" "Dir ''/a/b'' = ''/a''" "Dir ''/a'' = ''/''"
  "Dir ''/a-b/x'' = ''/a-b''" "Dir ''/a-b'' = ''/''"
  by (simp_all add: Dir_def Clean_def clean_elem_def)

text \<open>
  C5. \<open>directoryDiff\<close> is to collect the parents of \<open>current\<close> upward until the parent is
  the root, is \<open>prev\<close>, or \<open>prev\<close> starts with the parent followed by a slash, and to return
  them shallowest first; with an empty argument it returns the empty list. The code tests
  \<open>strings.HasPrefix(prev, parent)\<close> instead, without the slash: after the directory \<open>/a-b\<close>
  the file \<open>/a/b/file\<close> yields \<open>/a/b\<close> only, where the walk as specified yields \<open>/a\<close> and
  \<open>/a/b\<close>, because \<open>/a-b\<close> starts with \<open>/a\<close>.
\<close>

theorem directoryDiff_sibling_prefix:
  "directoryDiff ''/a-b'' ''/a/b/file'' = Some [''/a/b'']
   \<and> directoryDiff_spec ''/a-b'' ''/a/b/file'' = Some [''/a'', ''/a/b'']
   \<and> directoryDiff [] ''/a/b/file'' = Some []
   \<and> directoryDiff ''/a-b'' [] = Some []"
  by (simp add: directoryDiff_def directoryDiff_loop.simps directoryDiff_spec_def
        directoryDiff_spec_loop.simps Dir_examples HasPrefix_def)

text \<open>
  Keys are listed in byte order, in which \<open>a-b/x\<close> comes before \<open>a/b/file\<close>: a walk over these
  two keys never reports the directory \<open>/a\<close>.
\<close>

lemma Walk_misses_directory:
  "map_option (\<lambda>r. (fst r, map (\<lambda>i. (Path i, IsDir i)) (snd r))) (Walk s3_two_keys example_driver ''/'' accept_all)
    = Some (None, [(''/a-b'', True), (''/a-b/x'', False), (''/a/b'', True), (''/a/b/file'', False)])"
  by (simp add: Walk_def Walk_path_def doWalk_def walk_request_def root_prefix_def s3Path_def
        TrimLeft_def TrimRight_def HasSuffix_def s3_two_keys_def s3_ok_def example_driver_def accept_all_def
        directoryDiff_def directoryDiff_loop.simps Dir_examples HasPrefix_def Let_def)

subsection \<open>Reader\<close>

lemma below_ten: "k < 10 \<Longrightarrow> k \<in> {0, 1, 2, 3, 4, 5, 6, 7, 8, 9::nat}"
  by auto

lemma digit_value_digit_char: "k < 10 \<Longrightarrow> digit_value (digit_char k) = k"
  by (drule below_ten) (auto simp: digit_value_def digit_char_def)

lemma is_digit_digit_char: "k < 10 \<Longrightarrow> is_digit (digit_char k)"
  by (drule below_ten) (auto simp: is_digit_def digit_char_def)

lemma decimal_value_snoc: "decimal_value (xs @ [c]) = 10 * decimal_value xs + digit_value c"
  by (simp add: decimal_value_def)

lemma digits10_value: "decimal_value (digits10 n) = n"
proof (induction n rule: digits10.induct)
  case (1 n)
  show ?case
  proof (cases "n < 10")
    case True
    then show ?thesis
      by (subst digits10.simps) (simp add: decimal_value_def digit_value_digit_char)
  next
    case False
    then have "decimal_value (digits10 (n div 10)) = n div 10" using 1 by simp
    then show ?thesis
      using False
      by (subst digits10.simps) (simp add: decimal_value_snoc digit_value_digit_char)
  qed
qed

lemma digits10_digits: "c \<in> set (digits10 n) \<Longrightarrow> is_digit c"
proof (induction n rule: digits10.induct)
  case (1 n)
  show ?case
  proof (cases "n < 10")
    case True
    with 1(2) show ?thesis
      by (subst (asm) digits10.simps) (simp add: is_digit_digit_char)
  next
    case False
    with 1(2) have "c \<in> set (digits10 (n div 10)) \<or> c = digit_char (n mod 10)"
      by (subst (asm) digits10.simps) auto
    then show ?thesis using 1(1)[OF False] by (auto simp: is_digit_digit_char)
  qed
qed

text \<open>
  C9. For every path and every offset that is not negative, \<open>Reader\<close> sends one GET for the
  key of the path whose range is \<open>bytes=\<close>, the offset in decimal digits, and a dash (a
  range that starts at that byte and is open at the end); and when the backend answers
  with the error code \<open>InvalidRange\<close>, \<open>Reader\<close> returns an empty stream and no error.
\<close>

theorem Reader_ranged_get:
  assumes "0 \<le> offset"
  shows "snd (Reader s d path offset)
           = [GetObjectInput (Bucket d) (s3Path d path)
                (Some (''bytes='' @ FormatInt offset @ ''-''))]
    \<and> (\<forall>c \<in> set (FormatInt offset). is_digit c)
    \<and> int (decimal_value (FormatInt offset)) = offset
    \<and> (\<forall>msg. GetObject s (GetObjectInput (Bucket d) (s3Path d path)
                             (Some (''bytes='' @ FormatInt offset @ ''-'')))
                = Inl (AwsError ''InvalidRange'' msg)
              \<longrightarrow> fst (Reader s d path offset) = (Some ([], None), None))"
proof (intro conjI ballI allI impI)
  show "snd (Reader s d path offset)
           = [GetObjectInput (Bucket d) (s3Path d path)
                (Some (''bytes='' @ FormatInt offset @ ''-''))]"
    by (simp add: Reader_def Let_def split: sum.splits error.splits)
next
  fix c assume "c \<in> set (FormatInt offset)"
  then show "is_digit c" using assms digits10_digits by (simp add: FormatInt_def)
next
  show "int (decimal_value (FormatInt offset)) = offset"
    using assms by (simp add: FormatInt_def digits10_value)
next
  fix msg
  assume "GetObject s (GetObjectInput (Bucket d) (s3Path d path)
                             (Some (''bytes='' @ FormatInt offset @ ''-'')))
                = Inl (AwsError ''InvalidRange'' msg)"
  then show "fst (Reader s d path offset) = (Some ([], None), None)"
    by (simp add: Reader_def Let_def)
qed

lemma FormatInt_5: "FormatInt 5 = ''5''"
  by (simp add: FormatInt_def digits10.simps digit_char_def)

theorem Reader_ranged_get_witness:
  "(0::int) \<le> 5
   \<and> Reader s3_invalid_range example_driver ''/x'' 5
       = ((Some ([], None), None), [GetObjectInput ''bucket'' ''x'' (Some ''bytes=5-'')])
   \<and> decimal_value ''5'' = 5"
proof -
  have h: "(0::int) \<le> 5" by simp
  have g: "GetObject s3_invalid_range
             (GetObjectInput (Bucket example_driver) (s3Path example_driver ''/x'')
                (Some (''bytes='' @ FormatInt 5 @ ''-'')))
           = Inl (AwsError ''InvalidRange'' ''The requested range is not satisfiable'')"
    by (simp add: s3_invalid_range_def s3_ok_def)
  have k: "s3Path example_driver ''/x'' = ''x''" "Bucket example_driver = ''bucket''"
    by (simp_all add: s3Path_def TrimLeft_def TrimRight_def example_driver_def)
  note t = Reader_ranged_get[OF h, of s3_invalid_range example_driver "''/x''"]
  from t g have 1: "fst (Reader s3_invalid_range example_driver ''/x'' 5) = (Some ([], None), None)"
    by blast
  from t have 2: "snd (Reader s3_invalid_range example_driver ''/x'' 5)
                   = [GetObjectInput ''bucket'' ''x'' (Some ''bytes=5-'')]"
    by (simp add: k FormatInt_5)
  from t have 3: "decimal_value ''5'' = 5" by (simp add: FormatInt_5)
  from 1 2 have "Reader s3_invalid_range example_driver ''/x'' 5
       = ((Some ([], None), None), [GetObjectInput ''bucket'' ''x'' (Some ''bytes=5-'')])"
    by (metis prod.collapse)
  with h 3 show ?thesis by blast
qed

subsection \<open>Copy\<close>

lemma int64_id: "- (2 ^ 63) \<le> x \<Longrightarrow> x < 2 ^ 63 \<Longrightarrow> int64 x = x"
  by (simp add: int64_def)

lemma quo_nonneg: "0 \<le> a \<Longrightarrow> 0 < b \<Longrightarrow> a < 2 ^ 63 \<Longrightarrow> quo a b = a div b"
proof -
  assume a: "0 \<le> a" and b: "0 < b" and c: "a < 2 ^ 63"
  have s: "sgn a * sgn b * (\<bar>a\<bar> div \<bar>b\<bar>) = a div b"
    using a b by (cases "a = 0") (simp_all add: sgn_if)
  have "0 \<le> a div b" using a b by (simp add: pos_imp_zdiv_nonneg_iff)
  moreover have "a div b \<le> a" using a b
    by (metis div_by_1 int_one_le_iff_zero_less zdiv_mono2 zero_less_one)
  ultimately have "int64 (a div b) = a div b" using c by (intro int64_id) linarith+
  then show ?thesis unfolding quo_def s .
qed

lemma ceil_div:
  fixes sz c :: int
  assumes "0 < c"
  shows "((sz + c - 1) div c - 1) * c < sz" and "sz \<le> ((sz + c - 1) div c) * c"
proof -
  define q where "q = (sz + c - 1) div c"
  define r where "r = (sz + c - 1) mod c"
  have e: "q * c + r = sz + c - 1" by (simp add: q_def r_def)
  have r: "0 \<le> r" "r < c" using assms by (simp_all add: r_def)
  have d: "(q - 1) * c = q * c - c" by (simp add: left_diff_distrib)
  from e r d have "(q - 1) * c < sz" by linarith
  then show "((sz + c - 1) div c - 1) * c < sz" by (simp add: q_def)
  from e r have "sz \<le> q * c" by linarith
  then show "sz \<le> ((sz + c - 1) div c) * c" by (simp add: q_def)
qed

lemma copy_numParts_eq:
  assumes "0 < MultipartCopyChunkSize d" "0 \<le> sz" "sz + MultipartCopyChunkSize d \<le> 2 ^ 63"
  shows "copy_numParts d sz = (sz + MultipartCopyChunkSize d - 1) div MultipartCopyChunkSize d"
proof -
  have 1: "int64 (sz + MultipartCopyChunkSize d) = sz + MultipartCopyChunkSize d
             \<or> sz + MultipartCopyChunkSize d = 2 ^ 63"
    using assms by (cases "sz + MultipartCopyChunkSize d = 2 ^ 63") (simp_all add: int64_id)
  have 2: "int64 (int64 (sz + MultipartCopyChunkSize d) - 1) = sz + MultipartCopyChunkSize d - 1"
  proof (cases "sz + MultipartCopyChunkSize d = 2 ^ 63")
    case True
    then show ?thesis by (simp add: int64_def)
  next
    case False
    then show ?thesis using assms by (simp add: int64_id)
  qed
  show ?thesis
    unfolding copy_numParts_def 2 using assms by (simp add: quo_nonneg)
qed

lemma copy_part_bytes:
  fixes i sz :: int
  assumes c: "0 < MultipartCopyChunkSize d" and sz: "0 \<le> sz"
    and bound: "sz + MultipartCopyChunkSize d \<le> 2 ^ 63"
    and i: "0 \<le> i" "i < copy_numParts d sz"
  shows "copy_firstByte d i = i * MultipartCopyChunkSize d"
    and "copy_lastByte d sz i = min ((i + 1) * MultipartCopyChunkSize d - 1) (sz - 1)"
    and "int64 (i + 1) = i + 1"
proof -
  define ch where "ch = MultipartCopyChunkSize d"
  define n where "n = (sz + ch - 1) div ch"
  have n: "copy_numParts d sz = n"
    using copy_numParts_eq[OF c sz bound] by (simp add: n_def ch_def)
  have cp: "0 < ch" using c by (simp add: ch_def)
  have lo: "(n - 1) * ch < sz" and hi: "sz \<le> n * ch"
    using ceil_div[OF cp, of sz] by (simp_all add: n_def)
  have top: "n * ch \<le> sz + ch - 1"
  proof -
    have "n * ch + (sz + ch - 1) mod ch = sz + ch - 1" by (simp add: n_def)
    moreover have "0 \<le> (sz + ch - 1) mod ch" using cp by simp
    ultimately show ?thesis by linarith
  qed
  have "i \<le> n - 1" using i n by simp
  then have "i * ch \<le> (n - 1) * ch" using cp by (simp add: mult_right_mono)
  then have f1: "i * ch < sz" using lo by simp
  have f0: "0 \<le> i * ch" using i cp by simp
  have s1: "(i + 1) * ch = i * ch + ch" by (simp add: distrib_right)
  have "i + 1 \<le> n" using i n by simp
  then have "(i + 1) * ch \<le> n * ch" using cp by (simp add: mult_right_mono)
  then have f2: "i * ch + ch \<le> sz + ch - 1" using top s1 by simp
  have b: "sz + ch \<le> 2 ^ 63" using bound by (simp add: ch_def)
  have first: "int64 (i * ch) = i * ch"
    using f0 f1 b cp by (intro int64_id) linarith+
  then show fb: "copy_firstByte d i = i * MultipartCopyChunkSize d"
    by (simp add: copy_firstByte_def ch_def)
  have l1: "int64 (i * ch + ch) = i * ch + ch"
    using f0 f2 b cp by (intro int64_id) linarith+
  have l2: "int64 (i * ch + ch - 1) = i * ch + ch - 1"
    using f0 f2 b cp by (intro int64_id) linarith+
  have l3: "int64 (sz - 1) = sz - 1"
    using sz b cp by (intro int64_id) linarith+
  have "copy_lastByte d sz i = (if i * ch + ch - 1 \<ge> sz then sz - 1 else i * ch + ch - 1)"
    unfolding copy_lastByte_def fb Let_def
    using l1 l2 l3 by (simp add: ch_def)
  then show "copy_lastByte d sz i = min ((i + 1) * MultipartCopyChunkSize d - 1) (sz - 1)"
    using s1 by (simp add: ch_def min_def)
  have "n \<le> n * ch"
  proof -
    have "0 \<le> n" using sz cp by (simp add: n_def pos_imp_zdiv_nonneg_iff)
    then have "n * 1 \<le> n * ch" using cp by (intro mult_left_mono) simp_all
    then show ?thesis by simp
  qed
  then have "i + 1 < 2 ^ 63" using \<open>i + 1 \<le> n\<close> top b by linarith
  then show "int64 (i + 1) = i + 1" using i by (intro int64_id) linarith+
qed

lemma first_error_None: "(\<forall>r \<in> set rs. \<not> isl r) \<Longrightarrow> first_error rs = None"
  by (induction rs rule: first_error.induct) simp_all

lemma map_filter_all:
  "(\<forall>i \<in> set xs. \<not> isl (f i)) \<Longrightarrow>
     List.map_filter (\<lambda>i. case f i of Inl err \<Rightarrow> None | Inr etag \<Rightarrow> Some (etag, g i)) xs
       = map (\<lambda>i. (projr (f i), g i)) xs"
proof (induction xs)
  case Nil
  show ?case by (simp add: map_filter_simps)
next
  case (Cons x xs)
  then obtain t where "f x = Inr t" by (cases "f x") auto
  with Cons show ?case by (simp add: map_filter_simps)
qed

lemma copy_part_request_spec:
  assumes c: "0 < MultipartCopyChunkSize d" and sz: "0 \<le> sz"
    and bound: "sz + MultipartCopyChunkSize d \<le> 2 ^ 63"
    and i: "i < nat (copy_numParts d sz)"
  shows "copy_part_request d src dst u sz (int i) = copy_part_spec d src dst u sz i"
    and "int64 (int i + 1) = int i + 1"
proof -
  have i': "0 \<le> int i" "int i < copy_numParts d sz" using i by simp_all
  note b = copy_part_bytes[OF c sz bound i']
  show "copy_part_request d src dst u sz (int i) = copy_part_spec d src dst u sz i"
    by (simp add: copy_part_request_def copy_part_spec_def b)
  show "int64 (int i + 1) = int i + 1" by (rule b(3))
qed

text \<open>
  C6. Let the source object have \<open>size\<close> bytes (as \<open>Stat\<close> reports it), with a positive
  chunk size, a threshold that is not negative, and \<open>size + chunk\<close> within the range of
  64-bit integers. If \<open>size\<close> is at most the threshold, \<open>copy\<close> sends a single CopyObject.
  If \<open>size\<close> exceeds the threshold and the multipart upload is created on the destination,
  \<open>copy\<close> sends \<open>numParts = \<lceil>size / chunk\<rceil>\<close> range copies after it, where part \<open>i\<close>
  (counted from zero) covers the bytes \<open>i \<sqdot> chunk\<close> to \<open>min ((i + 1) \<sqdot> chunk - 1, size - 1)\<close>
  and carries the part number \<open>i + 1\<close>; and when all of them succeed, the completion request
  lists the parts numbered \<open>1\<close> to \<open>numParts\<close> in this order. With 100 MiB and chunks of
  32 MiB there are four parts, of 32, 32, 32 and 4 MiB.
\<close>

theorem copy_parts:
  assumes stat: "fst (Stat s d sourcePath) = (Some fileInfo, None)"
    and chunk: "0 < MultipartCopyChunkSize d"
    and threshold: "0 \<le> MultipartCopyThresholdSize d"
    and bound: "Size_fi fileInfo + MultipartCopyChunkSize d \<le> 2 ^ 63"
  shows
    "(Size_fi fileInfo \<le> MultipartCopyThresholdSize d \<longrightarrow>
        snd (copy s d order sourcePath destPath)
          = snd (Stat s d sourcePath)
            @ [CopyObjectInput (Bucket d) (s3Path d destPath)
                 (Bucket d @ ''/'' @ s3Path d sourcePath)])
     \<and> (MultipartCopyThresholdSize d < Size_fi fileInfo \<longrightarrow>
        (\<forall>uploadId.
           CreateMultipartUpload s (CreateMultipartUploadInput (Bucket d) (s3Path d destPath))
             = Inr uploadId \<longrightarrow>
           0 < copy_numParts d (Size_fi fileInfo)
           \<and> (copy_numParts d (Size_fi fileInfo) - 1) * MultipartCopyChunkSize d
               < Size_fi fileInfo
           \<and> Size_fi fileInfo
               \<le> copy_numParts d (Size_fi fileInfo) * MultipartCopyChunkSize d
           \<and> (\<exists>rest. snd (copy s d order sourcePath destPath)
                 = snd (Stat s d sourcePath)
                   @ [CreateMultipartUploadInput (Bucket d) (s3Path d destPath)]
                   @ map (copy_part_spec d sourcePath destPath uploadId (Size_fi fileInfo))
                       [0..<nat (copy_numParts d (Size_fi fileInfo))]
                   @ rest)
           \<and> (set order \<subseteq> {..<nat (copy_numParts d (Size_fi fileInfo))} \<longrightarrow>
              (\<forall>i<nat (copy_numParts d (Size_fi fileInfo)).
                 \<not> isl (UploadPartCopy s
                          (copy_part_spec d sourcePath destPath uploadId (Size_fi fileInfo) i)))
              \<longrightarrow>
              copy s d order sourcePath destPath
                = (CompleteMultipartUpload s
                     (CompleteMultipartUploadInput (Bucket d) (s3Path d destPath) uploadId
                        (map (\<lambda>i. (projr (UploadPartCopy s
                                       (copy_part_spec d sourcePath destPath uploadId
                                          (Size_fi fileInfo) i)), int i + 1))
                           [0..<nat (copy_numParts d (Size_fi fileInfo))])),
                   snd (Stat s d sourcePath)
                   @ [CreateMultipartUploadInput (Bucket d) (s3Path d destPath)]
                   @ map (copy_part_spec d sourcePath destPath uploadId (Size_fi fileInfo))
                       [0..<nat (copy_numParts d (Size_fi fileInfo))]
                   @ [CompleteMultipartUploadInput (Bucket d) (s3Path d destPath) uploadId
                        (map (\<lambda>i. (projr (UploadPartCopy s
                                       (copy_part_spec d sourcePath destPath uploadId
                                          (Size_fi fileInfo) i)), int i + 1))
                           [0..<nat (copy_numParts d (Size_fi fileInfo))])]))))
     \<and> copy_numParts example_driver (100 * 2 ^ 20) = 4
     \<and> map (\<lambda>i. copy_lastByte example_driver (100 * 2 ^ 20) i
                  - copy_firstByte example_driver i + 1) [0, 1, 2, 3]
         = [32 * 2 ^ 20, 32 * 2 ^ 20, 32 * 2 ^ 20, 4 * 2 ^ 20]"
proof (intro conjI impI allI)
  obtain reqs where st: "Stat s d sourcePath = ((Some fileInfo, None), reqs)"
    using stat by (metis prod.collapse)
  define sz where "sz = Size_fi fileInfo"
  define n where "n = copy_numParts d sz"
  define create where "create = CreateMultipartUploadInput (Bucket d) (s3Path d destPath)"
  {
    assume "Size_fi fileInfo \<le> MultipartCopyThresholdSize d"
    then show "snd (copy s d order sourcePath destPath)
          = snd (Stat s d sourcePath)
            @ [CopyObjectInput (Bucket d) (s3Path d destPath)
                 (Bucket d @ ''/'' @ s3Path d sourcePath)]"
      by (simp add: copy_def st Let_def)
  }
  show "copy_numParts example_driver (100 * 2 ^ 20) = 4"
    by (simp add: copy_numParts_def example_driver_def int64_def quo_def)
  show "map (\<lambda>i. copy_lastByte example_driver (100 * 2 ^ 20) i
                  - copy_firstByte example_driver i + 1) [0, 1, 2, 3]
         = [32 * 2 ^ 20, 32 * 2 ^ 20, 32 * 2 ^ 20, 4 * 2 ^ 20]"
    by (simp add: copy_lastByte_def copy_firstByte_def example_driver_def int64_def Let_def)
  fix uploadId
  assume big: "MultipartCopyThresholdSize d < Size_fi fileInfo"
    and cr: "CreateMultipartUpload s (CreateMultipartUploadInput (Bucket d) (s3Path d destPath))
               = Inr uploadId"
  have pos: "0 < sz" using big threshold by (simp add: sz_def)
  then have sz0: "0 \<le> sz" by simp
  have b: "sz + MultipartCopyChunkSize d \<le> 2 ^ 63" using bound by (simp add: sz_def)
  have neq: "n = (sz + MultipartCopyChunkSize d - 1) div MultipartCopyChunkSize d"
    using copy_numParts_eq[OF chunk sz0 b] by (simp add: n_def)
  have lo: "(n - 1) * MultipartCopyChunkSize d < sz" and hi: "sz \<le> n * MultipartCopyChunkSize d"
    using ceil_div[OF chunk, of sz] neq by simp_all
  have npos: "0 < n"
  proof (rule ccontr)
    assume "\<not> 0 < n"
    then have "n * MultipartCopyChunkSize d \<le> 0"
      using chunk by (simp add: mult_le_0_iff)
    with hi pos show False by simp
  qed
  show "0 < copy_numParts d (Size_fi fileInfo)" using npos by (simp add: n_def sz_def)
  show "(copy_numParts d (Size_fi fileInfo) - 1) * MultipartCopyChunkSize d < Size_fi fileInfo"
    using lo by (simp add: n_def sz_def)
  show "Size_fi fileInfo \<le> copy_numParts d (Size_fi fileInfo) * MultipartCopyChunkSize d"
    using hi by (simp add: n_def sz_def)
  have reqs_eq: "map (\<lambda>i. copy_part_request d sourcePath destPath uploadId sz (int i)) [0..<nat n]
                   = map (copy_part_spec d sourcePath destPath uploadId sz) [0..<nat n]"
    using copy_part_request_spec(1)[OF chunk sz0 b] by (simp add: n_def)
  define R where
    "R = map (\<lambda>i. copy_part_request d sourcePath destPath uploadId sz (int i)) [0..<nat n]"
  define C where
    "C = CompleteMultipartUploadInput (Bucket d) (s3Path d destPath) uploadId
           (List.map_filter
              (\<lambda>i. case UploadPartCopy s
                       (copy_part_request d sourcePath destPath uploadId sz (int i)) of
                      Inl err \<Rightarrow> None
                    | Inr etag \<Rightarrow> Some (etag, int64 (int i + 1)))
              [0..<nat n])"
  have unfold0: "copy s d order sourcePath destPath =
      (case first_error (map (\<lambda>i. UploadPartCopy s
              (copy_part_request d sourcePath destPath uploadId sz (int i))) order) of
         Some err \<Rightarrow> (Some err, reqs @ [create] @ R)
       | None \<Rightarrow> (CompleteMultipartUpload s C, reqs @ [create] @ R @ [C]))"
    unfolding R_def C_def create_def
    using big cr chunk npos
    by (simp add: copy_def st Let_def sz_def[symmetric] n_def[symmetric])
  have R: "R = map (copy_part_spec d sourcePath destPath uploadId sz) [0..<nat n]"
    unfolding R_def by (rule reqs_eq)
  have unfold: "copy s d order sourcePath destPath =
      (case first_error (map (\<lambda>i. UploadPartCopy s
              (copy_part_request d sourcePath destPath uploadId sz (int i))) order) of
         Some err \<Rightarrow> (Some err, reqs @ [create]
                         @ map (copy_part_spec d sourcePath destPath uploadId sz) [0..<nat n])
       | None \<Rightarrow>
           (CompleteMultipartUpload s
              (CompleteMultipartUploadInput (Bucket d) (s3Path d destPath) uploadId
                 (List.map_filter
                    (\<lambda>i. case UploadPartCopy s
                             (copy_part_request d sourcePath destPath uploadId sz (int i)) of
                            Inl err \<Rightarrow> None
                          | Inr etag \<Rightarrow> Some (etag, int64 (int i + 1)))
                    [0..<nat n])),
            reqs @ [create]
            @ map (copy_part_spec d sourcePath destPath uploadId sz) [0..<nat n]
            @ [CompleteMultipartUploadInput (Bucket d) (s3Path d destPath) uploadId
                 (List.map_filter
                    (\<lambda>i. case UploadPartCopy s
                             (copy_part_request d sourcePath destPath uploadId sz (int i)) of
                            Inl err \<Rightarrow> None
                          | Inr etag \<Rightarrow> Some (etag, int64 (int i + 1)))
                    [0..<nat n])]))"
    unfolding unfold0 R C_def ..
  show "\<exists>rest. snd (copy s d order sourcePath destPath)
                 = snd (Stat s d sourcePath)
                   @ [CreateMultipartUploadInput (Bucket d) (s3Path d destPath)]
                   @ map (copy_part_spec d sourcePath destPath uploadId (Size_fi fileInfo))
                       [0..<nat (copy_numParts d (Size_fi fileInfo))]
                   @ rest"
    unfolding unfold
    by (auto simp: st create_def sz_def n_def split: option.splits)
  assume ord: "set order \<subseteq> {..<nat (copy_numParts d (Size_fi fileInfo))}"
    and ok: "\<forall>i<nat (copy_numParts d (Size_fi fileInfo)).
                 \<not> isl (UploadPartCopy s
                          (copy_part_spec d sourcePath destPath uploadId (Size_fi fileInfo) i))"
  have ok': "\<forall>i \<in> set [0..<nat n].
               \<not> isl (UploadPartCopy s (copy_part_request d sourcePath destPath uploadId sz (int i)))"
    using ok copy_part_request_spec(1)[OF chunk sz0 b] by (simp add: n_def sz_def)
  have "\<forall>r \<in> set (map (\<lambda>i. UploadPartCopy s
              (copy_part_request d sourcePath destPath uploadId sz (int i))) order). \<not> isl r"
    using ok' ord by (auto simp: n_def sz_def)
  then have fe: "first_error (map (\<lambda>i. UploadPartCopy s
              (copy_part_request d sourcePath destPath uploadId sz (int i))) order) = None"
    by (rule first_error_None)
  have mf: "List.map_filter
                    (\<lambda>i. case UploadPartCopy s
                             (copy_part_request d sourcePath destPath uploadId sz (int i)) of
                            Inl err \<Rightarrow> None
                          | Inr etag \<Rightarrow> Some (etag, int64 (int i + 1)))
                    [0..<nat n]
            = map (\<lambda>i. (projr (UploadPartCopy s
                                  (copy_part_request d sourcePath destPath uploadId sz (int i))),
                         int64 (int i + 1))) [0..<nat n]"
    using ok' by (rule map_filter_all)
  have mf2: "map (\<lambda>i. (projr (UploadPartCopy s
                                  (copy_part_request d sourcePath destPath uploadId sz (int i))),
                         int64 (int i + 1))) [0..<nat n]
            = map (\<lambda>i. (projr (UploadPartCopy s
                                  (copy_part_spec d sourcePath destPath uploadId sz i)),
                         int i + 1)) [0..<nat n]"
    using copy_part_request_spec[OF chunk sz0 b] by (simp add: n_def)
  show "copy s d order sourcePath destPath
                = (CompleteMultipartUpload s
                     (CompleteMultipartUploadInput (Bucket d) (s3Path d destPath) uploadId
                        (map (\<lambda>i. (projr (UploadPartCopy s
                                       (copy_part_spec d sourcePath destPath uploadId
                                          (Size_fi fileInfo) i)), int i + 1))
                           [0..<nat (copy_numParts d (Size_fi fileInfo))])),
                   snd (Stat s d sourcePath)
                   @ [CreateMultipartUploadInput (Bucket d) (s3Path d destPath)]
                   @ map (copy_part_spec d sourcePath destPath uploadId (Size_fi fileInfo))
                       [0..<nat (copy_numParts d (Size_fi fileInfo))]
                   @ [CompleteMultipartUploadInput (Bucket d) (s3Path d destPath) uploadId
                        (map (\<lambda>i. (projr (UploadPartCopy s
                                       (copy_part_spec d sourcePath destPath uploadId
                                          (Size_fi fileInfo) i)), int i + 1))
                           [0..<nat (copy_numParts d (Size_fi fileInfo))])])"
    unfolding unfold fe mf mf2
    by (simp add: st create_def sz_def n_def)
qed

lemma FormatInt_examples:
  "FormatInt 0 = ''0''" "FormatInt 33554431 = ''33554431''" "FormatInt 33554432 = ''33554432''"
  "FormatInt 67108863 = ''67108863''" "FormatInt 67108864 = ''67108864''"
  "FormatInt 100663295 = ''100663295''" "FormatInt 100663296 = ''100663296''"
  "FormatInt 104857599 = ''104857599''"
  by (simp_all add: FormatInt_def digits10.simps digit_char_def)

lemma Stat_100_MiB:
  "Stat s3_100_MiB example_driver ''/src''
     = ((Some \<lparr>Path = ''/src'', Size_fi = 104857600, ModTime = Some 0, IsDir = False\<rparr>, None),
        [HeadObjectInput ''bucket'' ''src''])"
  by (simp add: Stat_def s3_100_MiB_def s3_ok_def example_driver_def s3Path_def TrimLeft_def
        TrimRight_def Let_def)

lemma copy_numParts_100_MiB: "copy_numParts example_driver 104857600 = 4"
  by (simp add: copy_numParts_def example_driver_def int64_def quo_def)

theorem copy_parts_witness:
  "fst (Stat s3_100_MiB example_driver ''/src'')
     = (Some \<lparr>Path = ''/src'', Size_fi = 104857600, ModTime = Some 0, IsDir = False\<rparr>, None)
   \<and> 0 < MultipartCopyChunkSize example_driver
   \<and> 0 \<le> MultipartCopyThresholdSize example_driver
   \<and> MultipartCopyThresholdSize example_driver < 104857600
   \<and> copy s3_100_MiB example_driver [2, 0, 3, 1] ''/src'' ''/dst''
       = (None,
          [HeadObjectInput ''bucket'' ''src'',
           CreateMultipartUploadInput ''bucket'' ''dst'',
           UploadPartCopyInput ''bucket'' ''bucket/src'' ''dst'' 1 ''upload-2''
             (Some ''bytes=0-33554431''),
           UploadPartCopyInput ''bucket'' ''bucket/src'' ''dst'' 2 ''upload-2''
             (Some ''bytes=33554432-67108863''),
           UploadPartCopyInput ''bucket'' ''bucket/src'' ''dst'' 3 ''upload-2''
             (Some ''bytes=67108864-100663295''),
           UploadPartCopyInput ''bucket'' ''bucket/src'' ''dst'' 4 ''upload-2''
             (Some ''bytes=100663296-104857599''),
           CompleteMultipartUploadInput ''bucket'' ''dst'' ''upload-2''
             [(''etag-copy'', 1), (''etag-copy'', 2), (''etag-copy'', 3), (''etag-copy'', 4)]])"
proof -
  let ?fi = "\<lparr>Path = ''/src'', Size_fi = 104857600, ModTime = Some 0, IsDir = False\<rparr>"
  have h1: "fst (Stat s3_100_MiB example_driver ''/src'') = (Some ?fi, None)"
    by (simp add: Stat_100_MiB)
  have h2: "0 < MultipartCopyChunkSize example_driver" by (simp add: example_driver_def)
  have h3: "0 \<le> MultipartCopyThresholdSize example_driver" by (simp add: example_driver_def)
  have h4: "Size_fi ?fi + MultipartCopyChunkSize example_driver \<le> 2 ^ 63"
    by (simp add: example_driver_def)
  have h5: "MultipartCopyThresholdSize example_driver < Size_fi ?fi"
    by (simp add: example_driver_def)
  have k: "s3Path example_driver ''/dst'' = ''dst''" "s3Path example_driver ''/src'' = ''src''"
    "Bucket example_driver = ''bucket''" "MultipartCopyChunkSize example_driver = 33554432"
    by (simp_all add: s3Path_def TrimLeft_def TrimRight_def example_driver_def)
  have h6: "CreateMultipartUpload s3_100_MiB
              (CreateMultipartUploadInput (Bucket example_driver) (s3Path example_driver ''/dst''))
            = Inr ''upload-2''"
    by (simp add: s3_100_MiB_def s3_ok_def)
  have n: "nat (copy_numParts example_driver (Size_fi ?fi)) = 4"
    by (simp add: copy_numParts_100_MiB)
  have u: "[0..<4] = [0, 1, 2, 3::nat]" by (simp add: upt_rec)
  have h7: "set [2, 0, 3, 1] \<subseteq> {..<nat (copy_numParts example_driver (Size_fi ?fi))}"
    unfolding n by simp
  have h8: "\<forall>i<nat (copy_numParts example_driver (Size_fi ?fi)).
              \<not> isl (UploadPartCopy s3_100_MiB
                       (copy_part_spec example_driver ''/src'' ''/dst'' ''upload-2'' (Size_fi ?fi) i))"
    by (simp add: s3_100_MiB_def s3_ok_def)
  note t = copy_parts[OF h1 h2 h3 h4, of "[2, 0, 3, 1]" "''/dst''"]
  from t h5 h6 h7 h8 have
    "copy s3_100_MiB example_driver [2, 0, 3, 1] ''/src'' ''/dst''
       = (CompleteMultipartUpload s3_100_MiB
            (CompleteMultipartUploadInput (Bucket example_driver) (s3Path example_driver ''/dst'')
               ''upload-2''
               (map (\<lambda>i. (projr (UploadPartCopy s3_100_MiB
                              (copy_part_spec example_driver ''/src'' ''/dst'' ''upload-2''
                                 (Size_fi ?fi) i)), int i + 1))
                  [0..<nat (copy_numParts example_driver (Size_fi ?fi))])),
          snd (Stat s3_100_MiB example_driver ''/src'')
          @ [CreateMultipartUploadInput (Bucket example_driver) (s3Path example_driver ''/dst'')]
          @ map (copy_part_spec example_driver ''/src'' ''/dst'' ''upload-2'' (Size_fi ?fi))
              [0..<nat (copy_numParts example_driver (Size_fi ?fi))]
          @ [CompleteMultipartUploadInput (Bucket example_driver)
               (s3Path example_driver ''/dst'') ''upload-2''
               (map (\<lambda>i. (projr (UploadPartCopy s3_100_MiB
                              (copy_part_spec example_driver ''/src'' ''/dst'' ''upload-2''
                                 (Size_fi ?fi) i)), int i + 1))
                  [0..<nat (copy_numParts example_driver (Size_fi ?fi))])])"
    by blast
  then have c: "copy s3_100_MiB example_driver [2, 0, 3, 1] ''/src'' ''/dst''
       = (None,
          [HeadObjectInput ''bucket'' ''src'',
           CreateMultipartUploadInput ''bucket'' ''dst'',
           UploadPartCopyInput ''bucket'' ''bucket/src'' ''dst'' 1 ''upload-2''
             (Some ''bytes=0-33554431''),
           UploadPartCopyInput ''bucket'' ''bucket/src'' ''dst'' 2 ''upload-2''
             (Some ''bytes=33554432-67108863''),
           UploadPartCopyInput ''bucket'' ''bucket/src'' ''dst'' 3 ''upload-2''
             (Some ''bytes=67108864-100663295''),
           UploadPartCopyInput ''bucket'' ''bucket/src'' ''dst'' 4 ''upload-2''
             (Some ''bytes=100663296-104857599''),
           CompleteMultipartUploadInput ''bucket'' ''dst'' ''upload-2''
             [(''etag-copy'', 1), (''etag-copy'', 2), (''etag-copy'', 3), (''etag-copy'', 4)]])"
    unfolding n u Stat_100_MiB
    by (simp add: copy_part_spec_def k FormatInt_examples s3_100_MiB_def s3_ok_def)
  from h1 h2 h3 h5 c show ?thesis by simp
qed

subsection \<open>List and Walk\<close>

lemma List_loop_rule:
  assumes run: "List_loop s d path prefix st = Some r"
    and init: "I st"
    and again: "\<And>st st'. I st \<Longrightarrow> List_round s d path prefix st = Again st' \<Longrightarrow> I st'"
    and return: "\<And>st r. I st \<Longrightarrow> List_round s d path prefix st = Return r \<Longrightarrow> Q r"
  shows "Q r"
proof -
  have gen: "s' = s \<and> d' = d \<and> path' = path \<and> prefix' = prefix \<longrightarrow> I st' \<longrightarrow> Q r'"
    if h: "List_loop s' d' path' prefix' st' = Some r'" for s' d' path' prefix' st' r'
  proof (rule List_loop.raw_induct[where P = "\<lambda>s' d' path' prefix' st' r'.
            s' = s \<and> d' = d \<and> path' = path \<and> prefix' = prefix \<longrightarrow> I st' \<longrightarrow> Q r'", OF _ h])
    fix loop s' d' path' prefix' st r
    assume IH: "\<And>a b c e g y. loop a b c e g = Some y \<Longrightarrow>
                  a = s \<and> b = d \<and> c = path \<and> e = prefix \<longrightarrow> I g \<longrightarrow> Q y"
      and step: "(case List_round s' d' path' prefix' st of Return r \<Rightarrow> Some r
                  | Again st' \<Rightarrow> loop s' d' path' prefix' st') = Some r"
    show "s' = s \<and> d' = d \<and> path' = path \<and> prefix' = prefix \<longrightarrow> I st \<longrightarrow> Q r"
    proof (intro impI)
      assume eq: "s' = s \<and> d' = d \<and> path' = path \<and> prefix' = prefix" and inv: "I st"
      show "Q r"
      proof (cases "List_round s d path prefix st")
        case (Return r')
        with step eq have "r' = r" by simp
        with Return inv show ?thesis using return by blast
      next
        case (Again st')
        with step eq have "loop s d path prefix st' = Some r" by simp
        moreover have "I st'" using again inv Again by blast
        ultimately show ?thesis using IH by blast
      qed
    qed
  qed
  with run init show ?thesis by blast
qed

lemma pages_empty_snoc:
  "pages_empty (pages @ [resp])
     \<longleftrightarrow> pages_empty pages \<and> Contents resp = [] \<and> CommonPrefixes resp = []"
  by (auto simp: pages_empty_def)

lemma List_loop_post:
  assumes run: "List_loop s d path prefix (resp0, [], [], [first], []) = Some (res, err, reqs, pages)"
    and first: "ListObjects s first = Inr resp0"
  shows "pages \<noteq> []"
    and "res \<noteq> None \<Longrightarrow> err = None \<and> map (ListObjects s) reqs = map Inr pages
           \<and> (fst (the res) = [] \<and> snd (the res) = [] \<longleftrightarrow> pages_empty pages)"
    and "res = None \<Longrightarrow>
           (err = Some (Panic ''slice bounds out of range'')
              \<and> map (ListObjects s) reqs = map Inr pages \<and> \<not> pages_empty pages)
           \<or> (\<exists>req \<in> set reqs. isl (ListObjects s req))"
proof -
  define I where "I = (\<lambda>st :: list_state. case st of (resp, files, dirs, reqs, pages) \<Rightarrow>
      map (ListObjects s) reqs = map Inr (pages @ [resp])
      \<and> (files = [] \<and> dirs = [] \<longleftrightarrow> pages_empty pages))"
  define Q where "Q = (\<lambda>r :: list_result. case r of (res, err, reqs, pages) \<Rightarrow>
      pages \<noteq> []
      \<and> (res \<noteq> None \<longrightarrow> err = None \<and> map (ListObjects s) reqs = map Inr pages
           \<and> (fst (the res) = [] \<and> snd (the res) = [] \<longleftrightarrow> pages_empty pages))
      \<and> (res = None \<longrightarrow>
           (err = Some (Panic ''slice bounds out of range'')
              \<and> map (ListObjects s) reqs = map Inr pages \<and> \<not> pages_empty pages)
           \<or> (\<exists>req \<in> set reqs. isl (ListObjects s req))))"
  have init: "I (resp0, [], [], [first], [])"
    using first by (simp add: I_def pages_empty_def)
  have again: "I st'" if "I st" "List_round s d path prefix st = Again st'" for st st'
  proof -
    obtain resp files dirs reqs pages where st: "st = (resp, files, dirs, reqs, pages)"
      by (metis prod_cases5)
    define nxt where "nxt = ListObjectsInput (Bucket d) (s3Path d path) (Some ''/'')
                              (Some listMax) (NextMarker resp)"
    define files' where "files' = files @ map (\<lambda>obj. Replace1 (Key obj) (s3Path d []) prefix)
                                            (Contents resp)"
    define dirs' where "dirs' = dirs
                @ map (\<lambda>commonPrefix. Replace1 (butlast commonPrefix) (s3Path d []) prefix)
                    (CommonPrefixes resp)"
    have i1: "map (ListObjects s) reqs = map Inr (pages @ [resp])"
      and i2: "files = [] \<and> dirs = [] \<longleftrightarrow> pages_empty pages"
      using that(1) unfolding I_def st prod.case by blast+
    from that(2) obtain resp' where r: "ListObjects s nxt = Inr resp'"
      and st': "st' = (resp', files', dirs', reqs @ [nxt], pages @ [resp])"
      unfolding st List_round_def Let_def prod.case nxt_def files'_def dirs'_def
      by (auto split: if_splits sum.splits)
    have j1: "map (ListObjects s) (reqs @ [nxt]) = map Inr ((pages @ [resp]) @ [resp'])"
      using i1 r by simp
    have e: "files' = [] \<and> dirs' = []
              \<longleftrightarrow> (files = [] \<and> dirs = []) \<and> Contents resp = [] \<and> CommonPrefixes resp = []"
      by (auto simp: files'_def dirs'_def)
    have j2: "files' = [] \<and> dirs' = [] \<longleftrightarrow> pages_empty (pages @ [resp])"
      unfolding e i2 by (rule pages_empty_snoc[symmetric])
    from j1 j2 show ?thesis unfolding I_def st' prod.case by blast
  qed
  have return: "Q r" if "I st" "List_round s d path prefix st = Return r" for st r
  proof -
    obtain resp files dirs reqs pages where st: "st = (resp, files, dirs, reqs, pages)"
      by (metis prod_cases5)
    obtain res err reqs' pages' where r: "r = (res, err, reqs', pages')"
      by (metis prod_cases4)
    define nxt where "nxt = ListObjectsInput (Bucket d) (s3Path d path) (Some ''/'')
                              (Some listMax) (NextMarker resp)"
    define files' where "files' = files @ map (\<lambda>obj. Replace1 (Key obj) (s3Path d []) prefix)
                                            (Contents resp)"
    define dirs' where "dirs' = dirs
                @ map (\<lambda>commonPrefix. Replace1 (butlast commonPrefix) (s3Path d []) prefix)
                    (CommonPrefixes resp)"
    have i1: "map (ListObjects s) reqs = map Inr (pages @ [resp])"
      and i2: "files = [] \<and> dirs = [] \<longleftrightarrow> pages_empty pages"
      using that(1) unfolding I_def st prod.case by blast+
    have e: "files' = [] \<and> dirs' = []
              \<longleftrightarrow> (files = [] \<and> dirs = []) \<and> Contents resp = [] \<and> CommonPrefixes resp = []"
      by (auto simp: files'_def dirs'_def)
    have j2: "files' = [] \<and> dirs' = [] \<longleftrightarrow> pages_empty (pages @ [resp])"
      unfolding e i2 by (rule pages_empty_snoc[symmetric])
    have c: "([] \<in> set (CommonPrefixes resp)
               \<and> r = (None, Some (Panic ''slice bounds out of range''), reqs, pages @ [resp]))
             \<or> (IsTruncated resp \<and> isl (ListObjects s nxt)
                 \<and> res = None \<and> reqs' = reqs @ [nxt] \<and> pages' = pages @ [resp])
             \<or> r = (Some (files', dirs'), None, reqs, pages @ [resp])"
      using that(2)
      unfolding st r List_round_def Let_def prod.case nxt_def files'_def dirs'_def
      by (auto split: if_splits sum.splits)
    show ?thesis
    proof -
      consider (panic) "[] \<in> set (CommonPrefixes resp)"
          "r = (None, Some (Panic ''slice bounds out of range''), reqs, pages @ [resp])"
        | (failed) "isl (ListObjects s nxt)" "res = None" "reqs' = reqs @ [nxt]"
            "pages' = pages @ [resp]"
        | (complete) "r = (Some (files', dirs'), None, reqs, pages @ [resp])"
        using c by blast
      then show ?thesis
      proof cases
        case panic
        have "CommonPrefixes resp \<noteq> []" using panic(1) by auto
        then have "\<not> pages_empty (pages @ [resp])" by (simp add: pages_empty_snoc)
        with i1 show ?thesis unfolding Q_def panic(2) prod.case by simp
      next
        case failed
        then show ?thesis unfolding Q_def r prod.case by auto
      next
        case complete
        with i1 j2 show ?thesis unfolding Q_def complete prod.case by simp
      qed
    qed
  qed
  have "Q (res, err, reqs, pages)"
    by (rule List_loop_rule[OF run, of I Q]) (fact init again return)+
  then have q: "pages \<noteq> []
      \<and> (res \<noteq> None \<longrightarrow> err = None \<and> map (ListObjects s) reqs = map Inr pages
           \<and> (fst (the res) = [] \<and> snd (the res) = [] \<longleftrightarrow> pages_empty pages))
      \<and> (res = None \<longrightarrow>
           (err = Some (Panic ''slice bounds out of range'')
              \<and> map (ListObjects s) reqs = map Inr pages \<and> \<not> pages_empty pages)
           \<or> (\<exists>req \<in> set reqs. isl (ListObjects s req)))"
    unfolding Q_def prod.case .
  from q show "pages \<noteq> []" by blast
  from q show "res \<noteq> None \<Longrightarrow> err = None \<and> map (ListObjects s) reqs = map Inr pages
           \<and> (fst (the res) = [] \<and> snd (the res) = [] \<longleftrightarrow> pages_empty pages)" by blast
  from q show "res = None \<Longrightarrow>
           (err = Some (Panic ''slice bounds out of range'')
              \<and> map (ListObjects s) reqs = map Inr pages \<and> \<not> pages_empty pages)
           \<or> (\<exists>req \<in> set reqs. isl (ListObjects s req))" by blast
qed

lemma walkInfos_empty:
  "walkInfos d prefix prevDir page = Some (infos, prevDir') \<Longrightarrow> (infos = [] \<longleftrightarrow> page = [])"
  by (cases page) (auto simp: Let_def split: option.splits)

lemma deliver_post:
  assumes "deliver f infos (skip, cnt, delivered) = (cont, err, (skip', cnt', delivered'))"
    and "cnt = int (length delivered)" and "skip \<noteq> [] \<longrightarrow> delivered \<noteq> []"
  shows "cnt' = int (length delivered') \<and> (skip' \<noteq> [] \<longrightarrow> delivered' \<noteq> [])
    \<and> (delivered \<noteq> [] \<longrightarrow> delivered' \<noteq> [])
    \<and> (delivered' = [] \<longrightarrow> infos = [])
    \<and> (infos = [] \<longrightarrow> delivered' = delivered \<and> cont \<and> err = None)
    \<and> (\<not> cont \<longrightarrow> delivered' \<noteq> [])
    \<and> (err \<noteq> None \<longrightarrow> \<not> cont \<and> err = f (butlast delivered') (last delivered')
                        \<and> err \<noteq> Some ErrSkipDir)"
  using assms
proof (induction infos arbitrary: skip cnt delivered)
  case Nil
  then show ?case by auto
next
  case (Cons walkInfo rest)
  show ?case
  proof (cases "skip \<noteq> [] \<and> HasPrefix (Path walkInfo) skip")
    case True
    then have d: "deliver f rest (skip, cnt, delivered) = (cont, err, (skip', cnt', delivered'))"
      using Cons.prems(1) by simp
    have ne: "delivered \<noteq> []" using True Cons.prems(3) by blast
    from Cons.IH[OF d Cons.prems(2,3)] ne show ?thesis by simp
  next
    case False
    note nskip = this
    show ?thesis
    proof (cases "f delivered walkInfo")
      case None
      then have d: "deliver f rest (skip, cnt + 1, delivered @ [walkInfo])
                     = (cont, err, (skip', cnt', delivered'))"
        using Cons.prems(1) nskip by simp
      have "cnt + 1 = int (length (delivered @ [walkInfo]))" using Cons.prems(2) by simp
      moreover have "skip \<noteq> [] \<longrightarrow> delivered @ [walkInfo] \<noteq> []" by simp
      ultimately show ?thesis using Cons.IH[OF d] by simp
    next
      case (Some e)
      show ?thesis
      proof (cases "e = ErrSkipDir")
        case True
        show ?thesis
        proof (cases "IsDir walkInfo")
          case True
          then have d: "deliver f rest (Path walkInfo, cnt + 1, delivered @ [walkInfo])
                     = (cont, err, (skip', cnt', delivered'))"
            using Cons.prems(1) nskip Some \<open>e = ErrSkipDir\<close> by simp
          have "cnt + 1 = int (length (delivered @ [walkInfo]))" using Cons.prems(2) by simp
          moreover have "Path walkInfo \<noteq> [] \<longrightarrow> delivered @ [walkInfo] \<noteq> []" by simp
          ultimately show ?thesis using Cons.IH[OF d] by simp
        next
          case False
          then have "cont = False" "err = None" "delivered' = delivered @ [walkInfo]"
            "cnt' = cnt + 1" "skip' = skip"
            using Cons.prems(1) nskip Some \<open>e = ErrSkipDir\<close> by simp_all
          then show ?thesis using Cons.prems(2) by simp
        qed
      next
        case False
        then have "cont = False" "err = Some e" "delivered' = delivered @ [walkInfo]"
          "cnt' = cnt + 1" "skip' = skip"
          using Cons.prems(1) nskip Some by simp_all
        then show ?thesis using Cons.prems(2) Some False by simp
      qed
    qed
  qed
qed

end
